theory Spec2Isabelle
  imports Main "HOL-Library.Char_ord" "HOL-Library.List_Lexorder" "HOL-Library.Multiset"
begin

section \<open>zonefmt: a shallow embedding of main.go\<close>

text \<open>
  The program reads a DNS zone file line by line, tracks the \<open>$ORIGIN\<close> and \<open>$TTL\<close>
  directives, parses every other line into a record with one regular expression, sorts the
  records and prints them in aligned columns. Strings are Go strings, that is byte
  sequences: \<open>string\<close> here, one \<open>char\<close> per byte. A run-time panic (an index out of
  range) and an error return are the two ways a Go function fails; both are values of
  \<open>failure\<close>.
\<close>

subsection \<open>Data\<close>

datatype failure = Panic | Error string

datatype log_entry = Warn string | ErrorLog string

record record_t =
  Name :: string
  TTL :: int
  Class :: string
  Type :: string
  Data :: string

text \<open>
  The functions of Go's standard library that main.go calls and whose result depends on
  floating point, on Unicode tables or on the library's version are parameters of the model:
  \<open>ParseDuration\<close> is \<open>time.ParseDuration\<close> (an error message, or the duration in
  nanoseconds), \<open>Seconds\<close> is the conversion \<open>int(t.Seconds())\<close>, which goes through
  \<open>float64\<close>, \<open>Sort\<close> is \<open>sort.Sort\<close> on a \<open>records\<close> value with the given \<open>Less\<close>,
  and \<open>IsPrint\<close> is \<open>strconv.IsPrint\<close> on the code points from 128 on.
\<close>

record library =
  ParseDuration :: "string \<Rightarrow> string + int"
  Seconds :: "int \<Rightarrow> int"
  Sort :: "(record_t \<Rightarrow> record_t \<Rightarrow> bool) \<Rightarrow> record_t list \<Rightarrow> record_t list"
  IsPrint :: "nat \<Rightarrow> bool"

record state =
  zone :: string
  ttl :: int
  rr :: "record_t list"
  logged :: "log_entry list"

subsection \<open>Character classes and slices\<close>

text \<open>The class \<open>\s\<close> of Go's regexp syntax is \<open>[\t\n\f\r ]\<close>; \<open>\S\<close> is its complement.\<close>

definition isSpace :: "char \<Rightarrow> bool" where
  "isSpace c \<longleftrightarrow> c = CHR 0x09 \<or> c = CHR 0x0A \<or> c = CHR 0x0C \<or> c = CHR 0x0D \<or> c = CHR 0x20"

definition isDigit :: "char \<Rightarrow> bool" where
  "isDigit c \<longleftrightarrow> CHR ''0'' \<le> c \<and> c \<le> CHR ''9''"

text \<open>Indexing a Go slice or string checks the bounds and panics outside them.\<close>

definition index :: "'a list \<Rightarrow> nat \<Rightarrow> failure + 'a" where
  "index xs i = (if i < length xs then Inr (xs ! i) else Inl Panic)"

subsection \<open>bufio.Scanner with the default split function ScanLines\<close>

definition dropCR :: "string \<Rightarrow> string" where
  "dropCR data = (if data \<noteq> [] \<and> last data = CHR 0x0D then butlast data else data)"

text \<open>
  \<open>Scan data\<close> is the list of the values of \<open>scanner.Text()\<close> over the loop
  \<open>for scanner.Scan()\<close> on a reader that delivers \<open>data\<close>. A line and its newline have to
  fit the scanner's buffer of 64 KiB; on a longer line \<open>Scan()\<close> returns false, and since
  formatZone does not look at \<open>scanner.Err()\<close> the loop just ends there.
\<close>

function Scan :: "string \<Rightarrow> string list" where
  "Scan data =
     (if data = [] then []
      else if length (takeWhile (\<lambda>c. c \<noteq> CHR 0x0A) data) \<ge> 65536 then []
      else dropCR (takeWhile (\<lambda>c. c \<noteq> CHR 0x0A) data) #
           Scan (drop 1 (dropWhile (\<lambda>c. c \<noteq> CHR 0x0A) data)))"
  by pat_completeness auto
termination
proof (relation "measure length")
  show "wf (measure length)" by simp
next
  fix data :: string
  assume "data \<noteq> []"
  then have "length (drop 1 (dropWhile (\<lambda>c. c \<noteq> CHR 0x0A) data)) < length data"
    by (cases data) (auto simp: less_Suc_eq_le length_dropWhile_le intro: le_trans [OF diff_le_self])
  then show "(drop 1 (dropWhile (\<lambda>c. c \<noteq> CHR 0x0A) data), data) \<in> measure length"
    by simp
qed

subsection \<open>The regular expression of parseRecord\<close>

text \<open>
  \<open>^(\S+)\s+(?:([0-9]+)\s+)?(\S+)\s+(\S+)\s+(.*)$\<close>, matched by
  \<open>FindStringSubmatch\<close>. Go's matcher prefers, at every choice, the first alternative
  that leads to a match: a greedy repetition takes as much as it can, and the optional
  group is taken whenever the rest of the pattern then matches. Every \<open>+\<close> of this pattern
  is followed by something that cannot begin with a character of its own class, or (the
  last \<open>\s+\<close>) by \<open>(.*)$\<close>, which matches whatever is left unless a newline is in it
  (\<open>.\<close> does not match a newline); so a repetition that gives back a character never
  helps, and the only real choice is the optional group. \<open>span\<close> is the greedy repetition.
\<close>

definition span :: "(char \<Rightarrow> bool) \<Rightarrow> string \<Rightarrow> string \<times> string" where
  "span P s = (takeWhile P s, dropWhile P s)"

text \<open>\<open>(\S+)\s+(\S+)\s+(.*)$\<close> at the start of \<open>s\<close>: class, type and data.\<close>

definition rex_tail :: "string \<Rightarrow> (string \<times> string \<times> string) option" where
  "rex_tail s =
     (let (cls, r1) = span (\<lambda>c. \<not> isSpace c) s; (w1, r2) = span isSpace r1;
          (typ, r3) = span (\<lambda>c. \<not> isSpace c) r2; (w2, dat) = span isSpace r3
      in if cls = [] \<or> w1 = [] \<or> typ = [] \<or> w2 = [] \<or> CHR 0x0A \<in> set dat then None
         else Some (cls, typ, dat))"

text \<open>
  The result is Go's slice of submatches, \<open>matches[0]\<close> to \<open>matches[5]\<close>, or \<open>None\<close>
  for the nil slice of a line that does not match. The group of the TTL that did not
  take part in the match is the empty string.
\<close>

definition FindStringSubmatch :: "string \<Rightarrow> string list option" where
  "FindStringSubmatch line =
     (let (name, r0) = span (\<lambda>c. \<not> isSpace c) line; (w0, r1) = span isSpace r0;
          (digits, r2) = span isDigit r1; (w, r3) = span isSpace r2
      in if name = [] \<or> w0 = [] then None
         else case (if digits \<noteq> [] \<and> w \<noteq> [] then rex_tail r3 else None) of
                Some (cls, typ, dat) \<Rightarrow> Some [line, name, digits, cls, typ, dat]
              | None \<Rightarrow>
                 (case rex_tail r1 of
                    Some (cls, typ, dat) \<Rightarrow> Some [line, name, [], cls, typ, dat]
                  | None \<Rightarrow> None))"

subsection \<open>strings, strconv, unicode/utf8\<close>

definition HasSuffix :: "string \<Rightarrow> string \<Rightarrow> bool" where
  "HasSuffix s suffix \<longleftrightarrow>
     length s \<ge> length suffix \<and> drop (length s - length suffix) s = suffix"

text \<open>\<open>strings.TrimLeft s cutset\<close> removes every leading byte that is in the cutset.\<close>

definition TrimLeft :: "string \<Rightarrow> string \<Rightarrow> string" where
  "TrimLeft s cutset = dropWhile (\<lambda>c. c \<in> set cutset) s"

text \<open>\<open>strings.Join [a, b] sep\<close>.\<close>

definition Join2 :: "string \<Rightarrow> string \<Rightarrow> string \<Rightarrow> string" where
  "Join2 a b sep = a @ sep @ b"

text \<open>
  \<open>strings.SplitN s " " 2\<close>: the text before the first space and the text after it, or
  the one-element slice \<open>[s]\<close> when \<open>s\<close> has no space.
\<close>

definition SplitN2 :: "string \<Rightarrow> string list" where
  "SplitN2 s =
     (if CHR 0x20 \<in> set s
      then [takeWhile (\<lambda>c. c \<noteq> CHR 0x20) s, drop 1 (dropWhile (\<lambda>c. c \<noteq> CHR 0x20) s)]
      else [s])"

definition digit_val :: "char \<Rightarrow> nat" where
  "digit_val c = of_char c - 48"

definition decimal :: "string \<Rightarrow> nat" where
  "decimal s = foldl (\<lambda>acc c. acc * 10 + digit_val c) 0 s"

text \<open>
  \<open>strconv.ParseInt s 10 64\<close>: an optional sign, then decimal digits only; a value outside
  the range of int64 is an error.
\<close>

definition ParseInt :: "string \<Rightarrow> failure + int" where
  "ParseInt s =
     (let neg = (s \<noteq> [] \<and> hd s = CHR ''-'');
          s' = (if s \<noteq> [] \<and> (hd s = CHR ''+'' \<or> hd s = CHR ''-'') then tl s else s)
      in if s' = [] \<or> \<not> list_all isDigit s' then Inl (Error ''invalid syntax'')
         else if \<not> neg \<and> decimal s' \<ge> 2 ^ 63 then Inl (Error ''value out of range'')
         else if neg \<and> decimal s' > 2 ^ 63 then Inl (Error ''value out of range'')
         else Inr (if neg then - int (decimal s') else int (decimal s')))"

definition digit_char :: "nat \<Rightarrow> char" where
  "digit_char n = char_of (48 + n)"

function digits_of :: "nat \<Rightarrow> string" where
  "digits_of n = (if n < 10 then [digit_char n] else digits_of (n div 10) @ [digit_char (n mod 10)])"
  by pat_completeness auto
termination
  by (relation "measure id") auto

text \<open>\<open>strconv.Itoa\<close>, which is also what the verb \<open>%d\<close> prints.\<close>

definition Itoa :: "int \<Rightarrow> string" where
  "Itoa i = (if i < 0 then CHR ''-'' # digits_of (nat (- i)) else digits_of (nat i))"

definition RuneError :: nat where
  "RuneError = 0xFFFD"

text \<open>
  The table \<open>first\<close> of unicode/utf8 for the bytes from 0x80 on: the length of the sequence
  that the byte starts and the range accepted for its second byte; \<open>None\<close> is an invalid
  first byte.
\<close>

definition first :: "nat \<Rightarrow> (nat \<times> nat \<times> nat) option" where
  "first b =
     (if 0xC2 \<le> b \<and> b \<le> 0xDF then Some (2, 0x80, 0xBF)
      else if b = 0xE0 then Some (3, 0xA0, 0xBF)
      else if 0xE1 \<le> b \<and> b \<le> 0xEC then Some (3, 0x80, 0xBF)
      else if b = 0xED then Some (3, 0x80, 0x9F)
      else if 0xEE \<le> b \<and> b \<le> 0xEF then Some (3, 0x80, 0xBF)
      else if b = 0xF0 then Some (4, 0x90, 0xBF)
      else if 0xF1 \<le> b \<and> b \<le> 0xF3 then Some (4, 0x80, 0xBF)
      else if b = 0xF4 then Some (4, 0x80, 0x8F)
      else None)"

definition cont :: "nat \<Rightarrow> bool" where
  "cont b \<longleftrightarrow> 0x80 \<le> b \<and> b \<le> 0xBF"

text \<open>\<open>utf8.DecodeRuneInString\<close>: the code point and the number of bytes it takes.\<close>

definition DecodeRuneInString :: "string \<Rightarrow> nat \<times> nat" where
  "DecodeRuneInString s =
     (if s = [] then (RuneError, 0)
      else let s0 = of_char (s ! 0) :: nat in
        if s0 < 0x80 then (s0, 1)
        else case first s0 of
          None \<Rightarrow> (RuneError, 1)
        | Some (sz, lo, hi) \<Rightarrow>
            if length s < sz then (RuneError, 1)
            else let s1 = of_char (s ! 1) :: nat in
              if s1 < lo \<or> hi < s1 then (RuneError, 1)
              else if sz \<le> 2 then (s0 mod 32 * 64 + s1 mod 64, 2)
              else let s2 = of_char (s ! 2) :: nat in
                if \<not> cont s2 then (RuneError, 1)
                else if sz \<le> 3 then (s0 mod 16 * 4096 + s1 mod 64 * 64 + s2 mod 64, 3)
                else let s3 = of_char (s ! 3) :: nat in
                  if \<not> cont s3 then (RuneError, 1)
                  else (s0 mod 8 * 262144 + s1 mod 64 * 4096 + s2 mod 64 * 64 + s3 mod 64, 4))"

lemma DecodeRuneInString_size:
  "s \<noteq> [] \<Longrightarrow> 1 \<le> snd (DecodeRuneInString s) \<and> snd (DecodeRuneInString s) \<le> length s"
  by (cases s) (auto simp: DecodeRuneInString_def Let_def first_def Suc_le_eq split: option.splits if_splits)

text \<open>
  \<open>utf8.RuneCountInString\<close>: every well-formed sequence counts once, and so does every
  byte that is not part of one.
\<close>

function RuneCountInString :: "string \<Rightarrow> nat" where
  "RuneCountInString s =
     (if s = [] then 0 else Suc (RuneCountInString (drop (snd (DecodeRuneInString s)) s)))"
  by pat_completeness auto
termination
proof (relation "measure length")
  show "wf (measure length)" by simp
next
  fix s :: string
  assume "s \<noteq> []"
  then have "1 \<le> snd (DecodeRuneInString s)" "s \<noteq> []"
    using DecodeRuneInString_size by auto
  then show "(drop (snd (DecodeRuneInString s)) s, s) \<in> measure length"
    by (cases s) auto
qed

text \<open>\<open>utf8.AppendRune\<close>: the UTF-8 encoding of a code point.\<close>

definition AppendRune :: "nat \<Rightarrow> string" where
  "AppendRune r =
     (if r < 0x80 then [char_of r]
      else if r < 0x800 then [char_of (0xC0 + r div 64), char_of (0x80 + r mod 64)]
      else if r > 0x10FFFF \<or> (0xD800 \<le> r \<and> r \<le> 0xDFFF)
        then [char_of (0xEF::nat), char_of (0xBF::nat), char_of (0xBD::nat)]
      else if r < 0x10000
        then [char_of (0xE0 + r div 4096), char_of (0x80 + r div 64 mod 64), char_of (0x80 + r mod 64)]
      else [char_of (0xF0 + r div 262144), char_of (0x80 + r div 4096 mod 64),
            char_of (0x80 + r div 64 mod 64), char_of (0x80 + r mod 64)])"

definition lowerhex :: "nat \<Rightarrow> char" where
  "lowerhex n = ''0123456789abcdef'' ! (n mod 16)"

text \<open>
  \<open>appendEscapedRune\<close> of strconv for the quote character \<open>"\<close>, neither ASCII-only nor
  graphic-only: what \<open>strconv.Quote\<close> writes for one code point.
\<close>

definition appendEscapedRune :: "library \<Rightarrow> nat \<Rightarrow> string" where
  "appendEscapedRune lib r =
     (if r = 0x22 \<or> r = 0x5C then [CHR 0x5C, char_of r]
      else if (if r < 0x80 then 0x20 \<le> r \<and> r < 0x7F else IsPrint lib r) then AppendRune r
      else if r = 0x07 then [CHR 0x5C, CHR ''a'']
      else if r = 0x08 then [CHR 0x5C, CHR ''b'']
      else if r = 0x0C then [CHR 0x5C, CHR ''f'']
      else if r = 0x0A then [CHR 0x5C, CHR ''n'']
      else if r = 0x0D then [CHR 0x5C, CHR ''r'']
      else if r = 0x09 then [CHR 0x5C, CHR ''t'']
      else if r = 0x0B then [CHR 0x5C, CHR ''v'']
      else if r < 0x20 \<or> r = 0x7F then [CHR 0x5C, CHR ''x'', lowerhex (r div 16), lowerhex r]
      else let r' = (if r > 0x10FFFF \<or> (0xD800 \<le> r \<and> r \<le> 0xDFFF) then RuneError else r) in
        if r' < 0x10000
        then [CHR 0x5C, CHR ''u'', lowerhex (r' div 4096), lowerhex (r' div 256),
              lowerhex (r' div 16), lowerhex r']
        else [CHR 0x5C, CHR ''U'', lowerhex (r' div 268435456), lowerhex (r' div 16777216),
              lowerhex (r' div 1048576), lowerhex (r' div 65536), lowerhex (r' div 4096),
              lowerhex (r' div 256), lowerhex (r' div 16), lowerhex r'])"

text \<open>The loop of \<open>appendQuotedWith\<close> over the string.\<close>

function quoted :: "library \<Rightarrow> string \<Rightarrow> string" where
  "quoted lib s =
     (if s = [] then []
      else let (r, width) = (if (of_char (s ! 0) :: nat) \<ge> 0x80 then DecodeRuneInString s
                             else (of_char (s ! 0), 1))
        in (if width = 1 \<and> r = RuneError
            then [CHR 0x5C, CHR ''x'', lowerhex (of_char (s ! 0) div 16), lowerhex (of_char (s ! 0))]
            else appendEscapedRune lib r) @ quoted lib (drop width s))"
  by pat_completeness auto
termination
proof (relation "measure (\<lambda>(lib, s). length s)")
  show "wf (measure (\<lambda>(lib :: library, s :: string). length s))" by simp
next
  fix lib :: library and s :: string and x :: "nat \<times> nat" and r width :: nat
  assume "s \<noteq> []"
    and x: "x = (if (0x80::nat) \<le> of_char (s ! 0) then DecodeRuneInString s else (of_char (s ! 0), 1))"
    and "(r, width) = x"
  then have "1 \<le> width"
    using DecodeRuneInString_size [of s] by (auto split: if_splits simp: snd_def split: prod.splits)
  with \<open>s \<noteq> []\<close> show "((lib, drop width s), (lib, s)) \<in> measure (\<lambda>(lib, s). length s)"
    by (cases s) auto
qed

text \<open>\<open>fmt.Sprintf("%q", s)\<close> on a string is \<open>strconv.Quote s\<close>.\<close>

definition Quote :: "library \<Rightarrow> string \<Rightarrow> string" where
  "Quote lib s = CHR 0x22 # quoted lib s @ [CHR 0x22]"

subsection \<open>The sorter: records.Less\<close>

text \<open>
  The global map \<open>sorting\<close> is a parameter. \<open>default_sorting\<close> is its initial value, which
  \<open>init\<close> overlays with the entries of the flag \<open>--sort\<close>.
\<close>

definition default_sorting :: "string \<rightharpoonup> nat" where
  "default_sorting = [''SOA'' \<mapsto> 0, ''NS'' \<mapsto> 10, ''MX'' \<mapsto> 20]"

definition score :: "(string \<rightharpoonup> nat) \<Rightarrow> string \<Rightarrow> nat" where
  "score sorting t = (case sorting t of Some sc \<Rightarrow> sc | None \<Rightarrow> 100)"

text \<open>\<open>r.Less(i, j)\<close> for \<open>ri = r[i]\<close> and \<open>rj = r[j]\<close>; Go compares strings byte by byte.\<close>

definition Less :: "(string \<rightharpoonup> nat) \<Rightarrow> record_t \<Rightarrow> record_t \<Rightarrow> bool" where
  "Less sorting ri rj =
     (let sci = score sorting (Type ri); scj = score sorting (Type rj)
      in if sci \<noteq> scj then sci < scj else Name ri < Name rj)"

subsection \<open>The renderer\<close>

text \<open>
  The verbs \<open>%-Ns\<close> and \<open>%Nd\<close> of fmt pad with spaces up to \<open>N\<close> characters, counted by
  \<open>utf8.RuneCountInString\<close>, and never cut a longer value.
\<close>

definition pad_right :: "nat \<Rightarrow> string \<Rightarrow> string" where
  "pad_right w s = s @ replicate (w - RuneCountInString s) (CHR 0x20)"

definition pad_left :: "nat \<Rightarrow> string \<Rightarrow> string" where
  "pad_left w s = replicate (w - RuneCountInString s) (CHR 0x20) @ s"

definition maxLen :: "record_t list \<Rightarrow> nat" where
  "maxLen rs = foldl (\<lambda>m r. if length (Name r) > m then length (Name r) else m) 0 rs"

text \<open>
  One call of \<open>fmt.Fprintf\<close> with the format \<open>"%-" + strconv.Itoa(maxLen) + "s %5d %s %-5s %s\n"\<close>.
  fmt gives up on a width whose leading digits exceed a million: the format then ends in a
  verb without a letter, and the five arguments are reported as extra.
\<close>

definition Fprintf :: "nat \<Rightarrow> record_t \<Rightarrow> string" where
  "Fprintf w r =
     (if w div 10 > 1000000
      then ''%!(NOVERB)%!(EXTRA string='' @ Name r @ '', int='' @ Itoa (TTL r) @
           '', string='' @ Class r @ '', string='' @ Type r @ '', string='' @ Data r @ '')''
      else pad_right w (Name r) @ '' '' @ pad_left 5 (Itoa (TTL r)) @ '' '' @ Class r @ '' '' @
           pad_right 5 (Type r) @ '' '' @ Data r @ [CHR 0x0A])"

definition render :: "record_t list \<Rightarrow> string" where
  "render rs = concat (map (Fprintf (maxLen rs)) rs)"

subsection \<open>parseRecord\<close>

text \<open>
  \<open>int\<close> is taken to be 64 bits wide, so the conversions between \<open>int\<close> and \<open>int64\<close> keep
  the value. Each \<open>if\<close> of the function updates \<open>rec\<close> in turn.
\<close>

definition parseRecord :: "library \<Rightarrow> string \<Rightarrow> string \<Rightarrow> int \<Rightarrow> failure + record_t" where
  "parseRecord lib line defaultZone defaultTTL =
     (case FindStringSubmatch line of
        None \<Rightarrow> Inl Panic
      | Some matches \<Rightarrow>
          (case (if matches ! 2 \<noteq> [] then ParseInt (matches ! 2) else Inr defaultTTL) of
             Inl err \<Rightarrow> Inl err
           | Inr ttl64 \<Rightarrow>
               let rec = \<lparr>Name = matches ! 1, TTL = ttl64, Class = matches ! 3,
                         Type = matches ! 4, Data = matches ! 5\<rparr>;
                   rec = (if Name rec = ''@'' then rec\<lparr>Name := []\<rparr> else rec);
                   rec = (if \<not> HasSuffix (Name rec) ''.''
                          then rec\<lparr>Name := TrimLeft (Join2 (Name rec) defaultZone ''.'') ''.''\<rparr>
                          else rec);
                   rec = (if TTL rec = 0 then rec\<lparr>TTL := defaultTTL\<rparr> else rec)
               in if Type rec = ''TXT''
                  then (case index (Data rec) 0 of
                          Inl err \<Rightarrow> Inl err
                        | Inr c \<Rightarrow> if c \<noteq> CHR 0x22 then Inr (rec\<lparr>Data := Quote lib (Data rec)\<rparr>)
                                   else Inr rec)
                  else Inr rec))"

subsection \<open>formatZone\<close>

text \<open>
  The body of the scanning loop for one line. The variables \<open>zone\<close>, \<open>ttl\<close> and \<open>rr\<close> and
  what has been logged so far are the state; the result is the state after the line,
  or the failure that ends the function.
\<close>

definition step :: "library \<Rightarrow> state \<Rightarrow> string \<Rightarrow> failure + state" where
  "step lib st text =
     (case index text 0 of
        Inl err \<Rightarrow> Inl err
      | Inr c \<Rightarrow>
          if c = CHR ''$'' then
            (let parts = SplitN2 text in
             if parts ! 0 = ''$ORIGIN'' then
               (case index parts 1 of
                  Inl err \<Rightarrow> Inl err
                | Inr arg \<Rightarrow> Inr (st\<lparr>zone := arg\<rparr>))
             else if parts ! 0 = ''$TTL'' then
               (case index parts 1 of
                  Inl err \<Rightarrow> Inl err
                | Inr arg \<Rightarrow>
                    (case ParseDuration lib arg of
                       Inl err \<Rightarrow> Inl (Error err)
                     | Inr t \<Rightarrow> Inr (st\<lparr>ttl := Seconds lib t\<rparr>)))
             else Inr (st\<lparr>logged := logged st @ [Warn text]\<rparr>))
          else
            (case parseRecord lib text (zone st) (ttl st) of
               Inl Panic \<Rightarrow> Inl Panic
             | Inl (Error err) \<Rightarrow> Inr (st\<lparr>logged := logged st @ [ErrorLog err]\<rparr>)
             | Inr rec \<Rightarrow> Inr (st\<lparr>rr := rr st @ [rec]\<rparr>)))"

fun loop :: "library \<Rightarrow> state \<Rightarrow> string list \<Rightarrow> failure + state" where
  "loop lib st [] = Inr st"
| "loop lib st (text # rest) =
     (case step lib st text of Inl err \<Rightarrow> Inl err | Inr st' \<Rightarrow> loop lib st' rest)"

definition init_state :: state where
  "init_state = \<lparr>zone = [], ttl = 0, rr = [], logged = []\<rparr>"

text \<open>
  \<open>format_lines\<close> is formatZone from the scanned lines on; \<open>formatZone\<close> takes the bytes
  that the reader delivers and returns the bytes of the buffer, or the failure.
\<close>

definition format_lines :: "library \<Rightarrow> (string \<rightharpoonup> nat) \<Rightarrow> string list \<Rightarrow> failure + string" where
  "format_lines lib sorting lines =
     (case loop lib init_state lines of
        Inl err \<Rightarrow> Inl err
      | Inr st \<Rightarrow> Inr (render (Sort lib (Less sorting) (rr st))))"

definition formatZone :: "library \<Rightarrow> (string \<rightharpoonup> nat) \<Rightarrow> string \<Rightarrow> failure + string" where
  "formatZone lib sorting zoneFile = format_lines lib sorting (Scan zoneFile)"

subsection \<open>What the library functions are assumed to do, and one instance\<close>

text \<open>
  \<open>sort.Sort\<close> rearranges the slice so that no element is \<open>Less\<close> than an earlier one;
  it is not stable. Nothing else about it is used.
\<close>

definition sort_contract :: "library \<Rightarrow> (string \<rightharpoonup> nat) \<Rightarrow> bool" where
  "sort_contract lib sorting \<longleftrightarrow>
     (\<forall>rs. mset (Sort lib (Less sorting) rs) = mset rs \<and>
           sorted_wrt (\<lambda>a b. \<not> Less sorting b a) (Sort lib (Less sorting) rs))"

fun insert_by :: "('a \<Rightarrow> 'a \<Rightarrow> bool) \<Rightarrow> 'a \<Rightarrow> 'a list \<Rightarrow> 'a list" where
  "insert_by lt x [] = [x]"
| "insert_by lt x (y # ys) = (if lt y x then y # insert_by lt x ys else x # y # ys)"

definition insertion_sort :: "('a \<Rightarrow> 'a \<Rightarrow> bool) \<Rightarrow> 'a list \<Rightarrow> 'a list" where
  "insertion_sort lt xs = foldr (insert_by lt) xs []"

text \<open>
  An instance of the library for concrete runs: insertion sort; the durations \<open>1h\<close>,
  \<open>30m\<close> and \<open>1h30m\<close> and an error for every other argument; the whole seconds of a
  duration, rounded towards zero; the printable code points of Latin-1.
\<close>

definition sample_library :: library where
  "sample_library =
     \<lparr>ParseDuration = (\<lambda>s. if s = ''1h'' then Inr 3600000000000
                           else if s = ''30m'' then Inr 1800000000000
                           else if s = ''1h30m'' then Inr 5400000000000
                           else Inl (''time: invalid duration '' @ s)),
      Seconds = (\<lambda>d. if d < 0 then - ((- d) div 1000000000) else d div 1000000000),
      Sort = insertion_sort,
      IsPrint = (\<lambda>r. 0xA1 \<le> r \<and> r \<le> 0xFF \<and> r \<noteq> 0xAD)\<rparr>"

declare Scan.simps [simp del] digits_of.simps [simp del] RuneCountInString.simps [simp del]
  quoted.simps [simp del]

subsection \<open>Notions used in the statements\<close>

text \<open>The bytes that \<open>strconv.Quote\<close> copies unchanged or backslashes: printable ASCII.\<close>

definition printable_ascii :: "char \<Rightarrow> bool" where
  "printable_ascii c \<longleftrightarrow> 0x20 \<le> (of_char c :: nat) \<and> (of_char c :: nat) < 0x7F"

text \<open>A backslash before every double quote and every backslash.\<close>

definition escape_quotes :: "string \<Rightarrow> string" where
  "escape_quotes s =
     concat (map (\<lambda>c. if c = CHR 0x22 \<or> c = CHR 0x5C then [CHR 0x5C, c] else [c]) s)"

text \<open>Strings of bytes below 0x80, for which a rune is a byte.\<close>

definition is_ascii :: "string \<Rightarrow> bool" where
  "is_ascii s \<longleftrightarrow> (\<forall>c\<in>set s. (of_char c :: nat) < 0x80)"

text \<open>
  What every record that parseRecord returns satisfies, and what more a record needs in
  order to be parsed again from its printed line.
\<close>

definition well_formed :: "record_t \<Rightarrow> bool" where
  "well_formed r \<longleftrightarrow>
     Class r \<noteq> [] \<and> (\<forall>c\<in>set (Class r). \<not> isSpace c) \<and>
     Type r \<noteq> [] \<and> (\<forall>c\<in>set (Type r). \<not> isSpace c) \<and>
     (Data r = [] \<or> \<not> isSpace (hd (Data r))) \<and> CHR 0x0A \<notin> set (Data r) \<and>
     (Type r = ''TXT'' \<longrightarrow> Data r \<noteq> [] \<and> hd (Data r) = CHR 0x22)"

definition reparsable :: "record_t \<Rightarrow> bool" where
  "reparsable r \<longleftrightarrow>
     Name r \<noteq> [] \<and> last (Name r) = CHR ''.'' \<and> hd (Name r) \<noteq> CHR ''$'' \<and>
     (\<forall>c\<in>set (Name r). \<not> isSpace c) \<and>
     0 \<le> TTL r \<and> TTL r < 2 ^ 63 \<and>
     (Data r \<noteq> [] \<longrightarrow> last (Data r) \<noteq> CHR 0x0D)"

text \<open>The line that \<open>Fprintf\<close> prints for a record, without its newline.\<close>

definition printed_line :: "nat \<Rightarrow> record_t \<Rightarrow> string" where
  "printed_line w r =
     Name r @ (replicate (w - RuneCountInString (Name r)) (CHR 0x20) @ '' '' @
               replicate (5 - length (Itoa (TTL r))) (CHR 0x20)) @
     Itoa (TTL r) @ '' '' @ Class r @ '' '' @
     Type r @ (replicate (5 - RuneCountInString (Type r)) (CHR 0x20) @ '' '') @ Data r"

section \<open>Properties\<close>

subsection \<open>Evaluation on concrete input\<close>

lemmas rex_eval = FindStringSubmatch_def rex_tail_def span_def isSpace_def isDigit_def Let_def

lemma quoted_Nil: "quoted lib [] = []"
  by (simp add: quoted.simps)

lemma of_char_eq_num:
  "(of_char c :: nat) = 0x22 \<longleftrightarrow> c = CHR 0x22"
  "(of_char c :: nat) = 0x5C \<longleftrightarrow> c = CHR 0x5C"
proof -
  have "(of_char c :: nat) = of_char (CHR 0x22) \<longleftrightarrow> c = CHR 0x22"
    by (rule of_char_eq_iff)
  then show "(of_char c :: nat) = 0x22 \<longleftrightarrow> c = CHR 0x22" by simp
  have "(of_char c :: nat) = of_char (CHR 0x5C) \<longleftrightarrow> c = CHR 0x5C"
    by (rule of_char_eq_iff)
  then show "(of_char c :: nat) = 0x5C \<longleftrightarrow> c = CHR 0x5C" by simp
qed

lemma quoted_ascii_Cons:
  assumes "printable_ascii c"
  shows "quoted lib (c # s) =
     (if c = CHR 0x22 \<or> c = CHR 0x5C then [CHR 0x5C, c] else [c]) @ quoted lib s"
proof -
  have lt: "(of_char c :: nat) < 0x80" "0x20 \<le> (of_char c :: nat)" "(of_char c :: nat) < 0x7F"
    using assms by (auto simp: printable_ascii_def)
  have ne: "(of_char c :: nat) \<noteq> RuneError"
    using lt by (simp add: RuneError_def)
  have esc: "appendEscapedRune lib (of_char c) =
      (if c = CHR 0x22 \<or> c = CHR 0x5C then [CHR 0x5C, c] else [c])"
    using lt by (simp add: appendEscapedRune_def AppendRune_def of_char_eq_num)
  have "quoted lib (c # s) = appendEscapedRune lib (of_char c) @ quoted lib s"
    using lt ne by (subst quoted.simps) simp
  then show ?thesis by (simp only: esc)
qed

lemmas parse_eval = parseRecord_def rex_eval ParseInt_def decimal_def digit_val_def HasSuffix_def
  TrimLeft_def Join2_def index_def Quote_def quoted_Nil quoted_ascii_Cons printable_ascii_def

subsection \<open>The loop over the lines\<close>

lemma loop_append:
  "loop lib st (pre @ post) =
     (case loop lib st pre of Inl err \<Rightarrow> Inl err | Inr st' \<Rightarrow> loop lib st' post)"
  by (induction pre arbitrary: st) (auto split: sum.splits)

lemma loop_failing_line:
  "l \<in> set lines \<Longrightarrow> (\<And>s. \<exists>err. step lib s l = Inl err) \<Longrightarrow> \<exists>err. loop lib st lines = Inl err"
proof (induction lines arbitrary: st)
  case Nil
  then show ?case by simp
next
  case (Cons x rest)
  show ?case
  proof (cases "step lib st x")
    case (Inl err)
    then show ?thesis by simp
  next
    case (Inr st')
    with Cons.prems(2) have "x \<noteq> l" by (metis Inl_Inr_False)
    with Cons.prems(1) have "l \<in> set rest" by simp
    then show ?thesis
      using Cons.IH [of st'] Cons.prems(2) Inr by simp
  qed
qed

subsection \<open>Empty lines\<close>

text \<open>
  C10. The dispatch reads \<open>scanner.Text()[0]\<close> before anything else, so an empty line is
  an index out of range: the step on it panics whatever the state, a run that reaches an
  empty line ends in that panic, and no input with an empty line among its lines yields
  an output.
\<close>

theorem empty_line_index_out_of_range:
  "step lib st [] = Inl Panic \<and>
   (loop lib st pre = Inr st' \<longrightarrow> loop lib st (pre @ [] # post) = Inl Panic) \<and>
   ([] \<in> set lines \<longrightarrow> (\<exists>err. format_lines lib sorting lines = Inl err))"
proof (intro conjI impI)
  show "step lib st [] = Inl Panic"
    by (simp add: step_def index_def)
next
  assume "loop lib st pre = Inr st'"
  then show "loop lib st (pre @ [] # post) = Inl Panic"
    by (simp add: loop_append step_def index_def)
next
  assume "[] \<in> set lines"
  then have "\<exists>err. loop lib init_state lines = Inl err"
    by (rule loop_failing_line) (simp add: step_def index_def)
  then show "\<exists>err. format_lines lib sorting lines = Inl err"
    by (auto simp: format_lines_def)
qed

theorem empty_line_index_out_of_range_witness:
  "[] \<in> set [''www IN A 10.0.0.1'', [], ''x IN A 10.0.0.2''] \<and>
   loop sample_library init_state [''www IN A 10.0.0.1''] =
     Inr (init_state\<lparr>rr := [\<lparr>Name = ''www.'', TTL = 0, Class = ''IN'', Type = ''A'',
                                 Data = ''10.0.0.1''\<rparr>]\<rparr>) \<and>
   loop sample_library init_state ([''www IN A 10.0.0.1''] @ [] # [''x IN A 10.0.0.2'']) = Inl Panic \<and>
   (\<exists>err. format_lines sample_library default_sorting
            [''www IN A 10.0.0.1'', [], ''x IN A 10.0.0.2''] = Inl err)"
proof -
  have run: "loop sample_library init_state [''www IN A 10.0.0.1''] =
     Inr (init_state\<lparr>rr := [\<lparr>Name = ''www.'', TTL = 0, Class = ''IN'', Type = ''A'',
                                 Data = ''10.0.0.1''\<rparr>]\<rparr>)"
    by (simp add: init_state_def step_def index_def parseRecord_def rex_eval HasSuffix_def
        TrimLeft_def Join2_def)
  have mem: "[] \<in> set [''www IN A 10.0.0.1'', [], ''x IN A 10.0.0.2'']"
    by simp
  show ?thesis
    using empty_line_index_out_of_range
      [of sample_library init_state "[''www IN A 10.0.0.1'']" _ "[''x IN A 10.0.0.2'']"
        "[''www IN A 10.0.0.1'', [], ''x IN A 10.0.0.2'']" default_sorting]
      run mem
    by blast
qed

subsection \<open>What the regular expression and parseRecord return\<close>

lemma isDigit_not_sign: "isDigit c \<Longrightarrow> c \<noteq> CHR ''-'' \<and> c \<noteq> CHR ''+'' \<and> \<not> isSpace c"
  by (auto simp: isDigit_def isSpace_def)

lemma ParseInt_digits:
  "s \<noteq> [] \<Longrightarrow> list_all isDigit s \<Longrightarrow>
   ParseInt s = (if decimal s \<ge> 2 ^ 63 then Inl (Error ''value out of range'')
                 else Inr (int (decimal s)))"
  by (cases s) (auto simp: ParseInt_def Let_def dest: isDigit_not_sign)

lemma rex_tail_Some:
  "rex_tail s = Some (cls, typ, dat) \<Longrightarrow>
     cls \<noteq> [] \<and> (\<forall>c\<in>set cls. \<not> isSpace c) \<and> typ \<noteq> [] \<and> (\<forall>c\<in>set typ. \<not> isSpace c) \<and>
     (dat = [] \<or> \<not> isSpace (hd dat)) \<and> CHR 0x0A \<notin> set dat"
  by (auto simp: rex_tail_def span_def Let_def split: if_splits dest: set_takeWhileD hd_dropWhile)

lemma FindStringSubmatch_Some:
  assumes "FindStringSubmatch line = Some m"
  shows "\<exists>name digits cls typ dat. m = [line, name, digits, cls, typ, dat] \<and>
     name \<noteq> [] \<and> (\<forall>c\<in>set name. \<not> isSpace c) \<and> list_all isDigit digits \<and>
     cls \<noteq> [] \<and> (\<forall>c\<in>set cls. \<not> isSpace c) \<and> typ \<noteq> [] \<and> (\<forall>c\<in>set typ. \<not> isSpace c) \<and>
     (dat = [] \<or> \<not> isSpace (hd dat)) \<and> CHR 0x0A \<notin> set dat"
  using assms
  by (auto simp: FindStringSubmatch_def span_def Let_def list_all_iff split: if_splits option.splits
      dest!: rex_tail_Some dest: set_takeWhileD)

lemma HasSuffix_dot: "HasSuffix s ''.'' \<longleftrightarrow> s \<noteq> [] \<and> last s = CHR ''.''"
proof (cases s rule: rev_cases)
  case Nil
  then show ?thesis by (simp add: HasSuffix_def)
next
  case (snoc ys y)
  then show ?thesis by (auto simp: HasSuffix_def)
qed

lemma TrimLeft_dot: "TrimLeft s ''.'' = dropWhile (\<lambda>c. c = CHR ''.'') s"
  by (simp add: TrimLeft_def)

text \<open>parseRecord in closed form, given the submatches.\<close>

lemma parseRecord_match:
  assumes "FindStringSubmatch line = Some [l, name, digits, cls, typ, dat]"
  shows "parseRecord lib line defaultZone defaultTTL =
     (if digits \<noteq> [] \<and> decimal digits \<ge> 2 ^ 63 then Inl (Error ''value out of range'')
      else if typ = ''TXT'' \<and> dat = [] then Inl Panic
      else Inr \<lparr>Name = (if name = ''@'' then dropWhile (\<lambda>c. c = CHR ''.'') (''.'' @ defaultZone)
                         else if last name = CHR ''.'' then name
                         else dropWhile (\<lambda>c. c = CHR ''.'') (name @ ''.'' @ defaultZone)),
                 TTL = (if digits = [] \<or> decimal digits = 0 then defaultTTL else int (decimal digits)),
                 Class = cls, Type = typ,
                 Data = (if typ = ''TXT'' \<and> hd dat \<noteq> CHR 0x22 then Quote lib dat else dat)\<rparr>)"
proof -
  from FindStringSubmatch_Some [OF assms]
  have name: "name \<noteq> []" and dig: "list_all isDigit digits" by auto
  have pi: "digits \<noteq> [] \<Longrightarrow> ParseInt digits =
      (if decimal digits \<ge> 2 ^ 63 then Inl (Error ''value out of range'')
       else Inr (int (decimal digits)))"
    using ParseInt_digits dig by blast
  show ?thesis
    using name
    by (cases dat)
      (auto simp: parseRecord_def assms pi Let_def HasSuffix_dot TrimLeft_dot Join2_def index_def)
qed

subsection \<open>Lines that do not match the regular expression\<close>

text \<open>
  C1. parseRecord indexes \<open>matches[2]\<close> without looking whether the expression matched.
  A line of three tokens does not match, \<open>matches\<close> is nil, and the index panics: the
  function returns neither a record nor an error, and formatZone ends in the panic
  instead of going on with the valid line that follows.
\<close>

theorem malformed_line_panics:
  "FindStringSubmatch ''a b c'' = None \<and>
   parseRecord sample_library ''a b c'' [] 0 = Inl Panic \<and>
   format_lines sample_library default_sorting [''a b c'', ''www IN A 10.0.0.1''] = Inl Panic"
  by (simp add: format_lines_def init_state_def step_def index_def parseRecord_def rex_eval)

subsection \<open>The TTL of a record\<close>

text \<open>
  C6. With \<open>digits\<close> the submatch of the optional TTL token: a record of a line without
  the token has the default TTL it was parsed under; so has a record whose token is
  zero; every other record has the value of its token, which is not zero.
\<close>

theorem ttl_resolution:
  assumes "FindStringSubmatch line = Some [l, name, digits, cls, typ, dat]"
      and "parseRecord lib line defaultZone defaultTTL = Inr rec"
  shows "(digits = [] \<longrightarrow> TTL rec = defaultTTL) \<and>
     (digits \<noteq> [] \<and> decimal digits = 0 \<longrightarrow> TTL rec = defaultTTL) \<and>
     (digits \<noteq> [] \<and> decimal digits \<noteq> 0 \<longrightarrow> TTL rec = int (decimal digits) \<and> TTL rec \<noteq> 0)"
  using assms(2) parseRecord_match [OF assms(1), of lib defaultZone defaultTTL]
  by (auto split: if_splits)

theorem ttl_resolution_witness:
  "FindStringSubmatch ''www IN A 10.0.0.1'' =
     Some [''www IN A 10.0.0.1'', ''www'', [], ''IN'', ''A'', ''10.0.0.1''] \<and>
   parseRecord sample_library ''www IN A 10.0.0.1'' ''example.com.'' 3600 =
     Inr \<lparr>Name = ''www.example.com.'', TTL = 3600, Class = ''IN'', Type = ''A'', Data = ''10.0.0.1''\<rparr> \<and>
   FindStringSubmatch ''www 0 IN A 10.0.0.1'' =
     Some [''www 0 IN A 10.0.0.1'', ''www'', ''0'', ''IN'', ''A'', ''10.0.0.1''] \<and>
   decimal ''0'' = 0 \<and>
   parseRecord sample_library ''www 0 IN A 10.0.0.1'' ''example.com.'' 3600 =
     Inr \<lparr>Name = ''www.example.com.'', TTL = 3600, Class = ''IN'', Type = ''A'', Data = ''10.0.0.1''\<rparr> \<and>
   FindStringSubmatch ''www 300 IN A 10.0.0.1'' =
     Some [''www 300 IN A 10.0.0.1'', ''www'', ''300'', ''IN'', ''A'', ''10.0.0.1''] \<and>
   decimal ''300'' = 300 \<and>
   parseRecord sample_library ''www 300 IN A 10.0.0.1'' ''example.com.'' 3600 =
     Inr \<lparr>Name = ''www.example.com.'', TTL = 300, Class = ''IN'', Type = ''A'', Data = ''10.0.0.1''\<rparr>"
proof -
  have m1: "FindStringSubmatch ''www IN A 10.0.0.1'' =
     Some [''www IN A 10.0.0.1'', ''www'', [], ''IN'', ''A'', ''10.0.0.1'']"
    by (simp add: rex_eval)
  have p1: "parseRecord sample_library ''www IN A 10.0.0.1'' ''example.com.'' 3600 =
     Inr \<lparr>Name = ''www.example.com.'', TTL = 3600, Class = ''IN'', Type = ''A'', Data = ''10.0.0.1''\<rparr>"
    by (simp add: parse_eval)
  have m2: "FindStringSubmatch ''www 0 IN A 10.0.0.1'' =
     Some [''www 0 IN A 10.0.0.1'', ''www'', ''0'', ''IN'', ''A'', ''10.0.0.1'']"
    by (simp add: rex_eval)
  have p2: "parseRecord sample_library ''www 0 IN A 10.0.0.1'' ''example.com.'' 3600 =
     Inr \<lparr>Name = ''www.example.com.'', TTL = 3600, Class = ''IN'', Type = ''A'', Data = ''10.0.0.1''\<rparr>"
    by (simp add: parse_eval)
  have m3: "FindStringSubmatch ''www 300 IN A 10.0.0.1'' =
     Some [''www 300 IN A 10.0.0.1'', ''www'', ''300'', ''IN'', ''A'', ''10.0.0.1'']"
    by (simp add: rex_eval)
  have p3: "parseRecord sample_library ''www 300 IN A 10.0.0.1'' ''example.com.'' 3600 =
     Inr \<lparr>Name = ''www.example.com.'', TTL = 300, Class = ''IN'', Type = ''A'', Data = ''10.0.0.1''\<rparr>"
    by (simp add: parse_eval)
  have d: "decimal ''0'' = 0" "decimal ''300'' = 300"
    by (simp_all add: decimal_def digit_val_def)
  show ?thesis
    using ttl_resolution [OF m1 p1] ttl_resolution [OF m2 p2] ttl_resolution [OF m3 p3]
      m1 p1 m2 p2 m3 p3 d
    by simp
qed

subsection \<open>The name of a record\<close>

text \<open>
  What the code computes. \<open>@\<close> becomes the origin without its leading dots; any other
  name that does not end in a dot becomes the name, a dot and the origin, without the
  leading dots of the whole; a name that ends in a dot is kept as it is.
\<close>

lemma name_resolution:
  assumes "FindStringSubmatch line = Some [l, name, digits, cls, typ, dat]"
      and "parseRecord lib line defaultZone defaultTTL = Inr rec"
  shows "(name = ''@'' \<longrightarrow> Name rec = dropWhile (\<lambda>c. c = CHR ''.'') defaultZone) \<and>
     (name = ''@'' \<and> (defaultZone = [] \<or> hd defaultZone \<noteq> CHR ''.'') \<longrightarrow> Name rec = defaultZone) \<and>
     (name \<noteq> ''@'' \<and> last name \<noteq> CHR ''.'' \<longrightarrow>
        Name rec = dropWhile (\<lambda>c. c = CHR ''.'') (name @ ''.'' @ defaultZone)) \<and>
     (name \<noteq> ''@'' \<and> last name \<noteq> CHR ''.'' \<and> hd name \<noteq> CHR ''.'' \<longrightarrow>
        Name rec = name @ ''.'' @ defaultZone) \<and>
     (last name = CHR ''.'' \<longrightarrow> Name rec = name)"
proof -
  from FindStringSubmatch_Some [OF assms(1)] have ne: "name \<noteq> []" by auto
  have n: "Name rec = (if name = ''@'' then dropWhile (\<lambda>c. c = CHR ''.'') (''.'' @ defaultZone)
                         else if last name = CHR ''.'' then name
                         else dropWhile (\<lambda>c. c = CHR ''.'') (name @ ''.'' @ defaultZone))"
    using assms(2) parseRecord_match [OF assms(1), of lib defaultZone defaultTTL]
    by (auto split: if_splits)
  have z: "defaultZone = [] \<or> hd defaultZone \<noteq> CHR ''.'' \<Longrightarrow>
      dropWhile (\<lambda>c. c = CHR ''.'') defaultZone = defaultZone"
    by (cases defaultZone) auto
  have h: "hd name \<noteq> CHR ''.'' \<Longrightarrow>
      dropWhile (\<lambda>c. c = CHR ''.'') (name @ ''.'' @ defaultZone) = name @ ''.'' @ defaultZone"
    using ne by (cases name) auto
  show ?thesis
    using n z h by auto
qed

lemma name_resolution_examples:
  "FindStringSubmatch ''@ 300 IN SOA ns1.example.com. x'' =
     Some [''@ 300 IN SOA ns1.example.com. x'', ''@'', ''300'', ''IN'', ''SOA'', ''ns1.example.com. x''] \<and>
   parseRecord sample_library ''@ 300 IN SOA ns1.example.com. x'' ''example.com.'' 0 =
     Inr \<lparr>Name = ''example.com.'', TTL = 300, Class = ''IN'', Type = ''SOA'',
          Data = ''ns1.example.com. x''\<rparr> \<and>
   FindStringSubmatch ''sub IN A 10.0.0.1'' =
     Some [''sub IN A 10.0.0.1'', ''sub'', [], ''IN'', ''A'', ''10.0.0.1''] \<and>
   parseRecord sample_library ''sub IN A 10.0.0.1'' ''example.com.'' 0 =
     Inr \<lparr>Name = ''sub.example.com.'', TTL = 0, Class = ''IN'', Type = ''A'', Data = ''10.0.0.1''\<rparr> \<and>
   FindStringSubmatch ''sub.other.net. IN A 10.0.0.2'' =
     Some [''sub.other.net. IN A 10.0.0.2'', ''sub.other.net.'', [], ''IN'', ''A'', ''10.0.0.2''] \<and>
   parseRecord sample_library ''sub.other.net. IN A 10.0.0.2'' ''example.com.'' 0 =
     Inr \<lparr>Name = ''sub.other.net.'', TTL = 0, Class = ''IN'', Type = ''A'', Data = ''10.0.0.2''\<rparr>"
proof -
  have m1: "FindStringSubmatch ''@ 300 IN SOA ns1.example.com. x'' =
     Some [''@ 300 IN SOA ns1.example.com. x'', ''@'', ''300'', ''IN'', ''SOA'', ''ns1.example.com. x'']"
    by (simp add: rex_eval)
  have p1: "parseRecord sample_library ''@ 300 IN SOA ns1.example.com. x'' ''example.com.'' 0 =
     Inr \<lparr>Name = ''example.com.'', TTL = 300, Class = ''IN'', Type = ''SOA'',
          Data = ''ns1.example.com. x''\<rparr>"
    by (simp add: parse_eval)
  have m2: "FindStringSubmatch ''sub IN A 10.0.0.1'' =
     Some [''sub IN A 10.0.0.1'', ''sub'', [], ''IN'', ''A'', ''10.0.0.1'']"
    by (simp add: rex_eval)
  have p2: "parseRecord sample_library ''sub IN A 10.0.0.1'' ''example.com.'' 0 =
     Inr \<lparr>Name = ''sub.example.com.'', TTL = 0, Class = ''IN'', Type = ''A'', Data = ''10.0.0.1''\<rparr>"
    by (simp add: parse_eval)
  have m3: "FindStringSubmatch ''sub.other.net. IN A 10.0.0.2'' =
     Some [''sub.other.net. IN A 10.0.0.2'', ''sub.other.net.'', [], ''IN'', ''A'', ''10.0.0.2'']"
    by (simp add: rex_eval)
  have p3: "parseRecord sample_library ''sub.other.net. IN A 10.0.0.2'' ''example.com.'' 0 =
     Inr \<lparr>Name = ''sub.other.net.'', TTL = 0, Class = ''IN'', Type = ''A'', Data = ''10.0.0.2''\<rparr>"
    by (simp add: parse_eval)
  show ?thesis
    using name_resolution [OF m1 p1] name_resolution [OF m2 p2] name_resolution [OF m3 p3]
      m1 p1 m2 p2 m3 p3
    by simp
qed

text \<open>
  C4. The name \<open>@\<close> is emptied and then, as the comment in parseRecord says, replaced in
  the next step: the name is joined to the origin with a dot and the leading dot is
  stripped. \<open>TrimLeft\<close> strips every leading dot, those of the origin included, so
  under the origin \<open>.\<close> of the root zone the name \<open>@\<close> is not replaced by the origin: it
  stays empty, in parseRecord and in the record that formatZone collects.
\<close>

theorem root_origin_empty_name:
  "parseRecord sample_library ''@ IN NS a.root-servers.net.'' ''.'' 0 =
     Inr \<lparr>Name = [], TTL = 0, Class = ''IN'', Type = ''NS'', Data = ''a.root-servers.net.''\<rparr> \<and>
   parseRecord sample_library ''@ IN NS a.root-servers.net.'' ''.'' 0 \<noteq>
     Inr \<lparr>Name = ''.'', TTL = 0, Class = ''IN'', Type = ''NS'', Data = ''a.root-servers.net.''\<rparr> \<and>
   loop sample_library init_state [''$ORIGIN .'', ''@ IN NS a.root-servers.net.''] =
     Inr (init_state\<lparr>zone := ''.'',
            rr := [\<lparr>Name = [], TTL = 0, Class = ''IN'', Type = ''NS'',
                    Data = ''a.root-servers.net.''\<rparr>]\<rparr>)"
  by (simp add: parse_eval step_def SplitN2_def init_state_def)

subsection \<open>The data of a TXT record\<close>

lemma quoted_printable:
  "\<forall>c\<in>set s. printable_ascii c \<Longrightarrow> quoted lib s = escape_quotes s"
proof (induction s)
  case Nil
  then show ?case by (simp add: quoted.simps escape_quotes_def)
next
  case (Cons c s)
  then show ?case by (simp add: quoted_ascii_Cons escape_quotes_def)
qed

lemma escape_quotes_id:
  "CHR 0x22 \<notin> set s \<Longrightarrow> CHR 0x5C \<notin> set s \<Longrightarrow> escape_quotes s = s"
  by (induction s) (auto simp: escape_quotes_def)

text \<open>
  C2, as stated, fails on data with a double quote inside: \<open>%q\<close> is \<open>strconv.Quote\<close>,
  which puts a backslash before each double quote, so the data \<open>say "hi"\<close> does not
  become \<open>"say "hi""\<close>.
\<close>

theorem txt_simple_wrap_counterexample:
  "parseRecord sample_library (''a IN TXT say '' @ [CHR 0x22] @ ''hi'' @ [CHR 0x22]) [] 0 =
     Inr \<lparr>Name = ''a.'', TTL = 0, Class = ''IN'', Type = ''TXT'',
          Data = [CHR 0x22] @ ''say '' @ [CHR 0x5C, CHR 0x22] @ ''hi'' @ [CHR 0x5C, CHR 0x22] @ [CHR 0x22]\<rparr> \<and>
   parseRecord sample_library (''a IN TXT say '' @ [CHR 0x22] @ ''hi'' @ [CHR 0x22]) [] 0 \<noteq>
     Inr \<lparr>Name = ''a.'', TTL = 0, Class = ''IN'', Type = ''TXT'',
          Data = [CHR 0x22] @ (''say '' @ [CHR 0x22] @ ''hi'' @ [CHR 0x22]) @ [CHR 0x22]\<rparr>"
  by (simp add: parse_eval)

text \<open>
  C2, amended. The data of a TXT record is never empty (parseRecord panics on an empty
  one). Data that begins with a double quote is kept. Other data is replaced by
  \<open>strconv.Quote\<close> of it: for printable ASCII that is the data between two double
  quotes with a backslash before every double quote and backslash of the data, and so
  the plain wrap when the data has neither.
\<close>

theorem txt_data_quoted:
  assumes "FindStringSubmatch line = Some [l, name, digits, cls, ''TXT'', dat]"
      and "parseRecord lib line defaultZone defaultTTL = Inr rec"
  shows "dat \<noteq> [] \<and>
     (hd dat = CHR 0x22 \<longrightarrow> Data rec = dat) \<and>
     (hd dat \<noteq> CHR 0x22 \<longrightarrow>
        Data rec = Quote lib dat \<and>
        ((\<forall>c\<in>set dat. printable_ascii c) \<longrightarrow>
           Data rec = [CHR 0x22] @ escape_quotes dat @ [CHR 0x22]) \<and>
        ((\<forall>c\<in>set dat. printable_ascii c) \<and> CHR 0x22 \<notin> set dat \<and> CHR 0x5C \<notin> set dat \<longrightarrow>
           Data rec = [CHR 0x22] @ dat @ [CHR 0x22]))"
proof -
  have eq: "parseRecord lib line defaultZone defaultTTL = Inr rec" by fact
  note pm = parseRecord_match [OF assms(1), of lib defaultZone defaultTTL]
  have ne: "dat \<noteq> []"
    using eq pm by (auto split: if_splits)
  have d: "Data rec = (if hd dat \<noteq> CHR 0x22 then Quote lib dat else dat)"
    using eq pm by (auto split: if_splits)
  show ?thesis
    using ne d by (auto simp: Quote_def quoted_printable escape_quotes_id)
qed

theorem txt_data_quoted_witness:
  "FindStringSubmatch ''a IN TXT hello world'' =
     Some [''a IN TXT hello world'', ''a'', [], ''IN'', ''TXT'', ''hello world''] \<and>
   parseRecord sample_library ''a IN TXT hello world'' ''example.com.'' 3600 =
     Inr \<lparr>Name = ''a.example.com.'', TTL = 3600, Class = ''IN'', Type = ''TXT'',
          Data = [CHR 0x22] @ ''hello world'' @ [CHR 0x22]\<rparr> \<and>
   hd ''hello world'' \<noteq> CHR 0x22 \<and> list_all printable_ascii ''hello world'' \<and>
   CHR 0x22 \<notin> set ''hello world'' \<and> CHR 0x5C \<notin> set ''hello world'' \<and>
   Quote sample_library ''hello world'' = [CHR 0x22] @ ''hello world'' @ [CHR 0x22]"
proof -
  have m: "FindStringSubmatch ''a IN TXT hello world'' =
     Some [''a IN TXT hello world'', ''a'', [], ''IN'', ''TXT'', ''hello world'']"
    by (simp add: rex_eval)
  have p: "parseRecord sample_library ''a IN TXT hello world'' ''example.com.'' 3600 =
     Inr \<lparr>Name = ''a.example.com.'', TTL = 3600, Class = ''IN'', Type = ''TXT'',
          Data = [CHR 0x22] @ ''hello world'' @ [CHR 0x22]\<rparr>"
    by (simp add: parse_eval)
  have h: "hd ''hello world'' \<noteq> CHR 0x22" "\<forall>c\<in>set ''hello world''. printable_ascii c"
    "CHR 0x22 \<notin> set ''hello world''" "CHR 0x5C \<notin> set ''hello world''"
    by (simp_all add: printable_ascii_def)
  show ?thesis
    using txt_data_quoted [OF m p] m p h by (simp add: list_all_iff)
qed

subsection \<open>Directives\<close>

lemma SplitN2_space:
  "CHR 0x20 \<notin> set kw \<Longrightarrow> SplitN2 (kw @ CHR 0x20 # arg) = [kw, arg]"
  by (induction kw) (auto simp: SplitN2_def)

lemma SplitN2_first:
  "SplitN2 s ! 0 = takeWhile (\<lambda>c. c \<noteq> CHR 0x20) s"
  by (auto simp: SplitN2_def intro!: takeWhile_eq_all_conv [THEN iffD2, symmetric])

lemma step_directive:
  assumes "line \<noteq> []" "hd line = CHR ''$''"
  shows "step lib st line =
     (let parts = SplitN2 line in
      if parts ! 0 = ''$ORIGIN'' then
        (case index parts 1 of Inl err \<Rightarrow> Inl err | Inr arg \<Rightarrow> Inr (st\<lparr>zone := arg\<rparr>))
      else if parts ! 0 = ''$TTL'' then
        (case index parts 1 of
           Inl err \<Rightarrow> Inl err
         | Inr arg \<Rightarrow>
             (case ParseDuration lib arg of
                Inl err \<Rightarrow> Inl (Error err)
              | Inr t \<Rightarrow> Inr (st\<lparr>ttl := Seconds lib t\<rparr>)))
      else Inr (st\<lparr>logged := logged st @ [Warn line]\<rparr>))"
  using assms by (cases line) (auto simp: step_def index_def Let_def)

text \<open>
  C9, as stated, fails on a directive whose argument follows a tab: the line is split at
  the first space (U+0020) only, so \<open>$ORIGIN\<close>, a tab and a name is one keyword, which
  is unknown: it is logged and the origin stays as it was.
\<close>

theorem directive_tab_counterexample:
  "takeWhile (\<lambda>c. \<not> isSpace c) (''$ORIGIN'' @ [CHR 0x09] @ ''example.com.'') = ''$ORIGIN'' \<and>
   dropWhile isSpace (dropWhile (\<lambda>c. \<not> isSpace c) (''$ORIGIN'' @ [CHR 0x09] @ ''example.com.'')) =
     ''example.com.'' \<and>
   step sample_library init_state (''$ORIGIN'' @ [CHR 0x09] @ ''example.com.'') =
     Inr (init_state\<lparr>logged := [Warn (''$ORIGIN'' @ [CHR 0x09] @ ''example.com.'')]\<rparr>) \<and>
   step sample_library init_state (''$ORIGIN'' @ [CHR 0x09] @ ''example.com.'') \<noteq>
     Inr (init_state\<lparr>zone := ''example.com.''\<rparr>)"
  by (simp add: step_def index_def SplitN2_def isSpace_def init_state_def)

text \<open>
  C9, amended. The line is split at its first space character. \<open>$ORIGIN\<close>, a space and
  an argument set the origin to the argument, byte for byte, and the loop goes on. A line
  that begins with \<open>$\<close> and whose text before the first space is neither \<open>$ORIGIN\<close> nor
  \<open>$TTL\<close> is logged as a warning, changes nothing else, and the loop goes on.
\<close>

theorem directive_dispatch:
  "(CHR 0x20 \<notin> set kw \<longrightarrow> SplitN2 (kw @ CHR 0x20 # arg) = [kw, arg]) \<and>
   step lib st (''$ORIGIN'' @ CHR 0x20 # arg) = Inr (st\<lparr>zone := arg\<rparr>) \<and>
   loop lib st ((''$ORIGIN'' @ CHR 0x20 # arg) # rest) = loop lib (st\<lparr>zone := arg\<rparr>) rest \<and>
   (line \<noteq> [] \<and> hd line = CHR ''$'' \<and> takeWhile (\<lambda>c. c \<noteq> CHR 0x20) line \<noteq> ''$ORIGIN'' \<and>
    takeWhile (\<lambda>c. c \<noteq> CHR 0x20) line \<noteq> ''$TTL'' \<longrightarrow>
      step lib st line = Inr (st\<lparr>logged := logged st @ [Warn line]\<rparr>) \<and>
      loop lib st (line # rest) = loop lib (st\<lparr>logged := logged st @ [Warn line]\<rparr>) rest)"
proof -
  have sp: "SplitN2 (''$ORIGIN'' @ CHR 0x20 # arg) = [''$ORIGIN'', arg]"
    by (rule SplitN2_space) simp
  have o: "step lib st (''$ORIGIN'' @ CHR 0x20 # arg) = Inr (st\<lparr>zone := arg\<rparr>)"
    by (subst step_directive) (simp_all add: sp index_def del: append.simps)
  have w: "step lib st line = Inr (st\<lparr>logged := logged st @ [Warn line]\<rparr>)"
    if "line \<noteq> []" "hd line = CHR ''$''" "takeWhile (\<lambda>c. c \<noteq> CHR 0x20) line \<noteq> ''$ORIGIN''"
       "takeWhile (\<lambda>c. c \<noteq> CHR 0x20) line \<noteq> ''$TTL''"
    using that by (simp add: step_directive SplitN2_first Let_def)
  show ?thesis
    using o w by (auto simp: SplitN2_space simp del: append.simps)
qed

theorem directive_dispatch_witness:
  "CHR 0x20 \<notin> set ''$ORIGIN'' \<and>
   SplitN2 (''$ORIGIN'' @ CHR 0x20 # ''example.com'') = [''$ORIGIN'', ''example.com''] \<and>
   step sample_library init_state (''$ORIGIN'' @ CHR 0x20 # ''example.com'') =
     Inr (init_state\<lparr>zone := ''example.com''\<rparr>) \<and>
   ''$INCLUDE other.zone'' \<noteq> [] \<and> hd ''$INCLUDE other.zone'' = CHR ''$'' \<and>
   takeWhile (\<lambda>c. c \<noteq> CHR 0x20) ''$INCLUDE other.zone'' = ''$INCLUDE'' \<and>
   step sample_library init_state ''$INCLUDE other.zone'' =
     Inr (init_state\<lparr>logged := logged init_state @ [Warn ''$INCLUDE other.zone'']\<rparr>) \<and>
   loop sample_library init_state [''$INCLUDE other.zone''] =
     Inr (init_state\<lparr>logged := logged init_state @ [Warn ''$INCLUDE other.zone'']\<rparr>)"
proof -
  have h: "CHR 0x20 \<notin> set ''$ORIGIN''" "''$INCLUDE other.zone'' \<noteq> []"
    "hd ''$INCLUDE other.zone'' = CHR ''$''"
    "takeWhile (\<lambda>c. c \<noteq> CHR 0x20) ''$INCLUDE other.zone'' = ''$INCLUDE''"
    by simp_all
  show ?thesis
    using directive_dispatch [of "''$ORIGIN''" "''example.com''" sample_library init_state "[]"
        "''$INCLUDE other.zone''"] h
    by simp
qed

text \<open>
  C7, as stated, fails on a \<open>$TTL\<close> directive whose argument follows a tab: the line is
  split at the first space only, so the whole line is one unknown keyword. It is logged,
  \<open>time.ParseDuration\<close> is never called on the argument it would reject, and formatZone
  returns an output.
\<close>

theorem ttl_tab_counterexample:
  "takeWhile (\<lambda>c. \<not> isSpace c) (''$TTL'' @ [CHR 0x09] @ ''1x'') = ''$TTL'' \<and>
   dropWhile isSpace (dropWhile (\<lambda>c. \<not> isSpace c) (''$TTL'' @ [CHR 0x09] @ ''1x'')) = ''1x'' \<and>
   ParseDuration sample_library ''1x'' = Inl ''time: invalid duration 1x'' \<and>
   step sample_library init_state (''$TTL'' @ [CHR 0x09] @ ''1x'') =
     Inr (init_state\<lparr>logged := [Warn (''$TTL'' @ [CHR 0x09] @ ''1x'')]\<rparr>) \<and>
   format_lines sample_library default_sorting [''$TTL'' @ [CHR 0x09] @ ''1x''] = Inr []"
  by (simp add: format_lines_def step_def index_def SplitN2_def isSpace_def init_state_def
      sample_library_def insertion_sort_def render_def maxLen_def)

text \<open>
  C7, amended. The directive is \<open>$TTL\<close>, one space character and the argument. When
  \<open>time.ParseDuration\<close> rejects the argument, the step returns that error; formatZone
  returns it when it reaches the line, and whatever comes before, an input with such a
  line among its scanned lines yields a failure and never an output. When the argument
  parses, the step stores \<open>int(t.Seconds())\<close> as the default TTL.
\<close>

theorem ttl_directive:
  "(ParseDuration lib arg = Inl err \<longrightarrow>
      step lib st (''$TTL'' @ CHR 0x20 # arg) = Inl (Error err) \<and>
      (loop lib init_state pre = Inr st' \<longrightarrow>
         format_lines lib sorting (pre @ (''$TTL'' @ CHR 0x20 # arg) # post) = Inl (Error err)) \<and>
      ((''$TTL'' @ CHR 0x20 # arg) \<in> set lines \<longrightarrow> (\<exists>e. format_lines lib sorting lines = Inl e)) \<and>
      ((''$TTL'' @ CHR 0x20 # arg) \<in> set (Scan zoneFile) \<longrightarrow>
         (\<exists>e. formatZone lib sorting zoneFile = Inl e))) \<and>
   (ParseDuration lib arg = Inr d \<longrightarrow>
      step lib st (''$TTL'' @ CHR 0x20 # arg) = Inr (st\<lparr>ttl := Seconds lib d\<rparr>))"
proof -
  have sp: "SplitN2 (''$TTL'' @ CHR 0x20 # arg) = [''$TTL'', arg]"
    by (rule SplitN2_space) simp
  have s: "step lib s (''$TTL'' @ CHR 0x20 # arg) =
      (case ParseDuration lib arg of Inl err \<Rightarrow> Inl (Error err)
       | Inr t \<Rightarrow> Inr (s\<lparr>ttl := Seconds lib t\<rparr>))" for s
    by (subst step_directive) (simp_all add: sp index_def del: append.simps)
  have f: "\<exists>e. format_lines lib sorting ls = Inl e"
    if "ParseDuration lib arg = Inl err" "(''$TTL'' @ CHR 0x20 # arg) \<in> set ls" for ls
  proof -
    have "\<exists>e. loop lib init_state ls = Inl e"
      using that(2) by (rule loop_failing_line) (simp add: s that(1) del: append.simps)
    then show ?thesis by (auto simp: format_lines_def)
  qed
  show ?thesis
    using f by (auto simp: s loop_append format_lines_def formatZone_def simp del: append.simps)
qed

theorem ttl_directive_witness:
  "ParseDuration sample_library ''1x'' = Inl ''time: invalid duration 1x'' \<and>
   loop sample_library init_state [''$ORIGIN example.com.''] =
     Inr (init_state\<lparr>zone := ''example.com.''\<rparr>) \<and>
   format_lines sample_library default_sorting
     ([''$ORIGIN example.com.''] @ (''$TTL'' @ CHR 0x20 # ''1x'') # [''www IN A 10.0.0.1'']) =
     Inl (Error ''time: invalid duration 1x'') \<and>
   ParseDuration sample_library ''1h'' = Inr 3600000000000 \<and>
   step sample_library init_state (''$TTL'' @ CHR 0x20 # ''1h'') = Inr (init_state\<lparr>ttl := 3600\<rparr>)"
proof -
  have e: "ParseDuration sample_library ''1x'' = Inl ''time: invalid duration 1x''"
    by (simp add: sample_library_def)
  have pre: "loop sample_library init_state [''$ORIGIN example.com.''] =
     Inr (init_state\<lparr>zone := ''example.com.''\<rparr>)"
    by (simp add: step_def index_def SplitN2_def)
  have ok: "ParseDuration sample_library ''1h'' = Inr 3600000000000"
    by (simp add: sample_library_def)
  have sec: "Seconds sample_library 3600000000000 = 3600"
    by (simp add: sample_library_def)
  show ?thesis
    using ttl_directive [of sample_library "''1x''" "''time: invalid duration 1x''" init_state
        "[''$ORIGIN example.com.'']" "init_state\<lparr>zone := ''example.com.''\<rparr>" default_sorting
        "[''www IN A 10.0.0.1'']"]
      ttl_directive [of sample_library "''1h''" _ init_state _ _ _ _ _ _ 3600000000000]
      e pre ok sec
    by simp
qed

subsection \<open>The order of the records\<close>

lemma Less_iff:
  "Less sorting a b \<longleftrightarrow>
     score sorting (Type a) < score sorting (Type b) \<or>
     (score sorting (Type a) = score sorting (Type b) \<and> Name a < Name b)"
  by (auto simp: Less_def Let_def)

lemma Less_asym: "Less sorting a b \<Longrightarrow> \<not> Less sorting b a"
  by (auto simp: Less_iff)

lemma Less_negtrans:
  "\<not> Less sorting a b \<Longrightarrow> \<not> Less sorting b c \<Longrightarrow> \<not> Less sorting a c"
  by (auto simp: Less_iff)

lemma set_insert_by: "set (insert_by lt x ys) = insert x (set ys)"
  by (induction ys) auto

lemma mset_insert_by: "mset (insert_by lt x ys) = add_mset x (mset ys)"
  by (induction ys) auto

lemma mset_insertion_sort: "mset (insertion_sort lt xs) = mset xs"
  by (induction xs) (simp_all add: insertion_sort_def mset_insert_by)

lemma sorted_insert_by:
  assumes asym: "\<And>a b. lt a b \<Longrightarrow> \<not> lt b a"
      and negtrans: "\<And>a b c. \<not> lt a b \<Longrightarrow> \<not> lt b c \<Longrightarrow> \<not> lt a c"
      and "sorted_wrt (\<lambda>a b. \<not> lt b a) ys"
  shows "sorted_wrt (\<lambda>a b. \<not> lt b a) (insert_by lt x ys)"
  using assms(3)
proof (induction ys)
  case Nil
  then show ?case by simp
next
  case (Cons y ys)
  show ?case
  proof (cases "lt y x")
    case True
    then have "\<not> lt x y" by (rule asym)
    moreover have "\<forall>z\<in>set ys. \<not> lt z y" using Cons.prems by simp
    ultimately show ?thesis
      using True Cons by (auto simp: set_insert_by)
  next
    case False
    have "\<forall>z\<in>set ys. \<not> lt z x"
      using Cons.prems False negtrans by auto
    then show ?thesis
      using False Cons.prems by simp
  qed
qed

lemma sorted_insertion_sort:
  assumes "\<And>a b. lt a b \<Longrightarrow> \<not> lt b a"
      and "\<And>a b c. \<not> lt a b \<Longrightarrow> \<not> lt b c \<Longrightarrow> \<not> lt a c"
  shows "sorted_wrt (\<lambda>a b. \<not> lt b a) (insertion_sort lt xs)"
proof (induction xs)
  case Nil
  then show ?case by (simp add: insertion_sort_def)
next
  case (Cons x xs)
  have e: "insertion_sort lt (x # xs) = insert_by lt x (insertion_sort lt xs)"
    by (simp add: insertion_sort_def)
  show ?case
    unfolding e
  proof (rule sorted_insert_by)
    show "\<And>a b. lt a b \<Longrightarrow> \<not> lt b a" by (rule assms(1))
    show "\<And>a b c. \<not> lt a b \<Longrightarrow> \<not> lt b c \<Longrightarrow> \<not> lt a c" by (rule assms(2))
    show "sorted_wrt (\<lambda>a b. \<not> lt b a) (insertion_sort lt xs)" by (rule Cons.IH)
  qed
qed

lemma insertion_sort_sorted_id:
  "sorted_wrt (\<lambda>a b. \<not> lt b a) xs \<Longrightarrow> insertion_sort lt xs = xs"
proof (induction xs)
  case Nil
  then show ?case by (simp add: insertion_sort_def)
next
  case (Cons x xs)
  then have ih: "insertion_sort lt xs = xs" by simp
  have "insertion_sort lt (x # xs) = insert_by lt x (insertion_sort lt xs)"
    by (simp add: insertion_sort_def)
  also have "\<dots> = insert_by lt x xs" by (simp add: ih)
  also have "\<dots> = x # xs" using Cons.prems by (cases xs) auto
  finally show ?case .
qed

text \<open>The comparator is a strict weak order, so insertion sort meets the contract.\<close>

lemma sample_sort_contract: "sort_contract sample_library sorting"
proof -
  have "sorted_wrt (\<lambda>a b. \<not> Less sorting b a) (insertion_sort (Less sorting) rs)" for rs
    by (rule sorted_insertion_sort) (erule Less_asym, erule (1) Less_negtrans)
  then show ?thesis
    by (simp add: sort_contract_def sample_library_def mset_insertion_sort)
qed

lemma score_default:
  "score default_sorting t =
     (if t = ''SOA'' then 0 else if t = ''NS'' then 10 else if t = ''MX'' then 20 else 100)"
  by (simp add: score_def default_sorting_def)

lemmas sort_eval = sample_library_def insertion_sort_def Less_def score_def default_sorting_def Let_def

lemma sorted_output:
  assumes c: "sort_contract lib sorting" and ij: "i < j" "j < length (Sort lib (Less sorting) rs)"
  shows "mset (Sort lib (Less sorting) rs) = mset rs \<and>
      score sorting (Type (Sort lib (Less sorting) rs ! i))
        \<le> score sorting (Type (Sort lib (Less sorting) rs ! j)) \<and>
      (score sorting (Type (Sort lib (Less sorting) rs ! i))
         = score sorting (Type (Sort lib (Less sorting) rs ! j)) \<longrightarrow>
       Name (Sort lib (Less sorting) rs ! i) \<le> Name (Sort lib (Less sorting) rs ! j))"
proof -
  let ?out = "Sort lib (Less sorting) rs"
  from c have m: "mset ?out = mset rs" and s: "sorted_wrt (\<lambda>a b. \<not> Less sorting b a) ?out"
    by (auto simp: sort_contract_def)
  from s ij have "\<not> Less sorting (?out ! j) (?out ! i)"
    by (simp add: sorted_wrt_iff_nth_less)
  then show ?thesis
    using m by (auto simp: Less_iff)
qed

text \<open>
  C5. The comparator orders by the score of the type, which is the entry of the table or
  100 for a type that is not in it, and among equal scores by the name, byte by byte.
  Under the default table the scores are 0 for SOA, 10 for NS, 20 for MX and 100 for
  every other type. In the list that \<open>sort.Sort\<close> leaves (the same records, none
  \<open>Less\<close> than an earlier one) an earlier record never has a higher score than a later
  one, and among equal scores never a greater name; under the default table no record
  comes before an SOA record but SOA records, none before an NS record but SOA and NS
  records, and none before an MX record but SOA, NS and MX records.
\<close>

theorem sort_order:
  "(Less sorting a b \<longleftrightarrow>
      score sorting (Type a) < score sorting (Type b) \<or>
      (score sorting (Type a) = score sorting (Type b) \<and> Name a < Name b)) \<and>
   score sorting t = (case sorting t of None \<Rightarrow> 100 | Some sc \<Rightarrow> sc) \<and>
   score default_sorting t =
     (if t = ''SOA'' then 0 else if t = ''NS'' then 10 else if t = ''MX'' then 20 else 100) \<and>
   (sort_contract lib sorting \<and> i < j \<and> j < length (Sort lib (Less sorting) rs) \<longrightarrow>
      mset (Sort lib (Less sorting) rs) = mset rs \<and>
      score sorting (Type (Sort lib (Less sorting) rs ! i))
        \<le> score sorting (Type (Sort lib (Less sorting) rs ! j)) \<and>
      (score sorting (Type (Sort lib (Less sorting) rs ! i))
         = score sorting (Type (Sort lib (Less sorting) rs ! j)) \<longrightarrow>
       Name (Sort lib (Less sorting) rs ! i) \<le> Name (Sort lib (Less sorting) rs ! j))) \<and>
   (sort_contract lib default_sorting \<and> i < j \<and>
    j < length (Sort lib (Less default_sorting) rs) \<longrightarrow>
      (Type (Sort lib (Less default_sorting) rs ! j) = ''SOA'' \<longrightarrow>
         Type (Sort lib (Less default_sorting) rs ! i) = ''SOA'') \<and>
      (Type (Sort lib (Less default_sorting) rs ! j) = ''NS'' \<longrightarrow>
         Type (Sort lib (Less default_sorting) rs ! i) \<in> {''SOA'', ''NS''}) \<and>
      (Type (Sort lib (Less default_sorting) rs ! j) = ''MX'' \<longrightarrow>
         Type (Sort lib (Less default_sorting) rs ! i) \<in> {''SOA'', ''NS'', ''MX''}))"
proof -
  have d: "(Type (Sort lib (Less default_sorting) rs ! j) = ''SOA'' \<longrightarrow>
         Type (Sort lib (Less default_sorting) rs ! i) = ''SOA'') \<and>
      (Type (Sort lib (Less default_sorting) rs ! j) = ''NS'' \<longrightarrow>
         Type (Sort lib (Less default_sorting) rs ! i) \<in> {''SOA'', ''NS''}) \<and>
      (Type (Sort lib (Less default_sorting) rs ! j) = ''MX'' \<longrightarrow>
         Type (Sort lib (Less default_sorting) rs ! i) \<in> {''SOA'', ''NS'', ''MX''})"
    if "sort_contract lib default_sorting" "i < j" "j < length (Sort lib (Less default_sorting) rs)"
  proof -
    have "score default_sorting (Type (Sort lib (Less default_sorting) rs ! i))
        \<le> score default_sorting (Type (Sort lib (Less default_sorting) rs ! j))"
      using sorted_output [OF that] by simp
    then show ?thesis
      by (simp add: score_default split: if_splits)
  qed
  have s: "score sorting t = (case sorting t of None \<Rightarrow> 100 | Some sc \<Rightarrow> sc)"
    by (simp add: score_def split: option.splits)
  show ?thesis
    using sorted_output [of lib sorting i j rs] d s Less_iff [of sorting a b] score_default [of t]
    by blast
qed

theorem sort_order_witness:
  "sort_contract sample_library default_sorting \<and>
   Sort sample_library (Less default_sorting)
     [\<lparr>Name = ''example.com.'', TTL = 300, Class = ''IN'', Type = ''MX'', Data = ''10 mail''\<rparr>,
      \<lparr>Name = ''www.example.com.'', TTL = 300, Class = ''IN'', Type = ''A'', Data = ''10.0.0.2''\<rparr>,
      \<lparr>Name = ''example.com.'', TTL = 300, Class = ''IN'', Type = ''SOA'', Data = ''ns1 x''\<rparr>,
      \<lparr>Name = ''example.com.'', TTL = 300, Class = ''IN'', Type = ''NS'', Data = ''ns1''\<rparr>,
      \<lparr>Name = ''ftp.example.com.'', TTL = 300, Class = ''IN'', Type = ''A'', Data = ''10.0.0.1''\<rparr>] =
     [\<lparr>Name = ''example.com.'', TTL = 300, Class = ''IN'', Type = ''SOA'', Data = ''ns1 x''\<rparr>,
      \<lparr>Name = ''example.com.'', TTL = 300, Class = ''IN'', Type = ''NS'', Data = ''ns1''\<rparr>,
      \<lparr>Name = ''example.com.'', TTL = 300, Class = ''IN'', Type = ''MX'', Data = ''10 mail''\<rparr>,
      \<lparr>Name = ''ftp.example.com.'', TTL = 300, Class = ''IN'', Type = ''A'', Data = ''10.0.0.1''\<rparr>,
      \<lparr>Name = ''www.example.com.'', TTL = 300, Class = ''IN'', Type = ''A'', Data = ''10.0.0.2''\<rparr>] \<and>
   score default_sorting ''A'' = 100 \<and>
   Less default_sorting
     \<lparr>Name = ''ftp.example.com.'', TTL = 300, Class = ''IN'', Type = ''A'', Data = ''10.0.0.1''\<rparr>
     \<lparr>Name = ''www.example.com.'', TTL = 300, Class = ''IN'', Type = ''A'', Data = ''10.0.0.2''\<rparr>"
proof -
  let ?rs = "[\<lparr>Name = ''example.com.'', TTL = 300, Class = ''IN'', Type = ''MX'', Data = ''10 mail''\<rparr>,
      \<lparr>Name = ''www.example.com.'', TTL = 300, Class = ''IN'', Type = ''A'', Data = ''10.0.0.2''\<rparr>,
      \<lparr>Name = ''example.com.'', TTL = 300, Class = ''IN'', Type = ''SOA'', Data = ''ns1 x''\<rparr>,
      \<lparr>Name = ''example.com.'', TTL = 300, Class = ''IN'', Type = ''NS'', Data = ''ns1''\<rparr>,
      \<lparr>Name = ''ftp.example.com.'', TTL = 300, Class = ''IN'', Type = ''A'', Data = ''10.0.0.1''\<rparr>]"
  have c: "sort_contract sample_library default_sorting" by (rule sample_sort_contract)
  have s: "Sort sample_library (Less default_sorting) ?rs =
     [\<lparr>Name = ''example.com.'', TTL = 300, Class = ''IN'', Type = ''SOA'', Data = ''ns1 x''\<rparr>,
      \<lparr>Name = ''example.com.'', TTL = 300, Class = ''IN'', Type = ''NS'', Data = ''ns1''\<rparr>,
      \<lparr>Name = ''example.com.'', TTL = 300, Class = ''IN'', Type = ''MX'', Data = ''10 mail''\<rparr>,
      \<lparr>Name = ''ftp.example.com.'', TTL = 300, Class = ''IN'', Type = ''A'', Data = ''10.0.0.1''\<rparr>,
      \<lparr>Name = ''www.example.com.'', TTL = 300, Class = ''IN'', Type = ''A'', Data = ''10.0.0.2''\<rparr>]"
    by (simp add: sort_eval)
  have l: "Less default_sorting
     \<lparr>Name = ''ftp.example.com.'', TTL = 300, Class = ''IN'', Type = ''A'', Data = ''10.0.0.1''\<rparr>
     \<lparr>Name = ''www.example.com.'', TTL = 300, Class = ''IN'', Type = ''A'', Data = ''10.0.0.2''\<rparr>"
    by (simp add: sort_eval)
  show ?thesis
    using sort_order [of default_sorting
        "\<lparr>Name = ''ftp.example.com.'', TTL = 300, Class = ''IN'', Type = ''A'', Data = ''10.0.0.1''\<rparr>"
        "\<lparr>Name = ''www.example.com.'', TTL = 300, Class = ''IN'', Type = ''A'', Data = ''10.0.0.2''\<rparr>"
        "''A''" sample_library 3 4 ?rs] c s l
    by simp
qed

subsection \<open>The rendered text\<close>

lemma RuneCountInString_Nil: "RuneCountInString [] = 0"
  by (simp add: RuneCountInString.simps)

lemma RuneCountInString_step:
  "s \<noteq> [] \<Longrightarrow> RuneCountInString s = Suc (RuneCountInString (drop (snd (DecodeRuneInString s)) s))"
  by (subst RuneCountInString.simps) simp

lemma RuneCountInString_le: "RuneCountInString s \<le> length s"
proof (induction s rule: RuneCountInString.induct)
  case (1 s)
  show ?case
  proof (cases "s = []")
    case True
    then show ?thesis by (simp add: RuneCountInString_Nil)
  next
    case False
    then have "1 \<le> snd (DecodeRuneInString s)" "snd (DecodeRuneInString s) \<le> length s"
      using DecodeRuneInString_size by auto
    moreover have "RuneCountInString (drop (snd (DecodeRuneInString s)) s)
        \<le> length (drop (snd (DecodeRuneInString s)) s)"
      using 1 False by simp
    ultimately show ?thesis
      using False by (simp add: RuneCountInString_step)
  qed
qed

lemma RuneCountInString_ascii_Cons:
  "(of_char c :: nat) < 0x80 \<Longrightarrow> RuneCountInString (c # s) = Suc (RuneCountInString s)"
  by (subst RuneCountInString.simps) (simp add: DecodeRuneInString_def)

lemma RuneCountInString_ascii: "is_ascii s \<Longrightarrow> RuneCountInString s = length s"
  by (induction s) (simp_all add: is_ascii_def RuneCountInString_Nil RuneCountInString_ascii_Cons)

lemma of_char_digit_char: "n < 10 \<Longrightarrow> (of_char (digit_char n) :: nat) = 48 + n"
  by (simp add: digit_char_def)

lemma digits_of_ascii: "is_ascii (digits_of n)"
proof (induction n rule: digits_of.induct)
  case (1 n)
  show ?case
  proof (cases "n < 10")
    case True
    then show ?thesis
      by (subst digits_of.simps) (simp add: is_ascii_def of_char_digit_char)
  next
    case False
    then have "is_ascii (digits_of (n div 10))" using 1 by simp
    moreover have "(of_char (digit_char (n mod 10)) :: nat) < 0x80"
      by (simp add: of_char_digit_char)
    ultimately show ?thesis
      using False by (subst digits_of.simps) (simp add: is_ascii_def)
  qed
qed

lemma digits_of_no_newline: "CHR 0x0A \<notin> set (digits_of n)"
proof (induction n rule: digits_of.induct)
  case (1 n)
  have d: "digit_char k \<noteq> CHR 0x0A" if "k < 10" for k
  proof
    assume "digit_char k = CHR 0x0A"
    then have "(of_char (digit_char k) :: nat) = of_char (CHR 0x0A)" by simp
    with that show False by (simp add: of_char_digit_char)
  qed
  show ?case
  proof (cases "n < 10")
    case True
    then show ?thesis by (subst digits_of.simps) (simp add: d [symmetric])
  next
    case False
    then show ?thesis
      using 1 by (subst digits_of.simps) (simp add: d [symmetric])
  qed
qed

lemma Itoa_ascii: "is_ascii (Itoa i)"
  using digits_of_ascii by (simp add: Itoa_def is_ascii_def)

lemma Itoa_no_newline: "CHR 0x0A \<notin> set (Itoa i)"
  using digits_of_no_newline by (simp add: Itoa_def)

lemma pad_left_Itoa:
  "pad_left w (Itoa i) = replicate (w - length (Itoa i)) (CHR 0x20) @ Itoa i"
  by (simp add: pad_left_def RuneCountInString_ascii Itoa_ascii)

lemma foldl_maxLen_ge:
  "m \<le> foldl (\<lambda>m r. if length (Name r) > m then length (Name r) else m) m rs \<and>
   (\<forall>r\<in>set rs. length (Name r)
      \<le> foldl (\<lambda>m r. if length (Name r) > m then length (Name r) else m) m rs)"
proof (induction rs arbitrary: m)
  case Nil
  then show ?case by simp
next
  case (Cons r rs)
  show ?case
    using Cons [of "if length (Name r) > m then length (Name r) else m"]
    by (auto split: if_splits)
qed

lemma foldl_maxLen_attained:
  "foldl (\<lambda>m r. if length (Name r) > m then length (Name r) else m) m rs = m \<or>
   (\<exists>r\<in>set rs. foldl (\<lambda>m r. if length (Name r) > m then length (Name r) else m) m rs
      = length (Name r))"
proof (induction rs arbitrary: m)
  case Nil
  then show ?case by simp
next
  case (Cons r rs)
  show ?case
    using Cons [of "if length (Name r) > m then length (Name r) else m"]
    by (auto split: if_splits)
qed

lemma maxLen_ge: "r \<in> set rs \<Longrightarrow> length (Name r) \<le> maxLen rs"
  using foldl_maxLen_ge [of 0 rs] by (simp add: maxLen_def)

lemma maxLen_attained: "rs \<noteq> [] \<Longrightarrow> \<exists>r\<in>set rs. length (Name r) = maxLen rs"
proof -
  assume ne: "rs \<noteq> []"
  from foldl_maxLen_attained [of 0 rs]
  consider "maxLen rs = 0" | "\<exists>r\<in>set rs. maxLen rs = length (Name r)"
    by (auto simp: maxLen_def)
  then show ?thesis
  proof cases
    case 1
    from ne obtain r where r: "r \<in> set rs" by (cases rs) auto
    with maxLen_ge [OF r] 1 show ?thesis by auto
  next
    case 2
    then show ?thesis by auto
  qed
qed

lemma Fprintf_layout:
  "w div 10 \<le> 1000000 \<Longrightarrow>
   Fprintf w r =
     Name r @ replicate (w - RuneCountInString (Name r)) (CHR 0x20) @ '' '' @
     replicate (5 - length (Itoa (TTL r))) (CHR 0x20) @ Itoa (TTL r) @ '' '' @
     Class r @ '' '' @
     Type r @ replicate (5 - RuneCountInString (Type r)) (CHR 0x20) @ '' '' @
     Data r @ [CHR 0x0A]"
  by (simp add: Fprintf_def pad_right_def pad_left_Itoa)

lemma newlines_concat:
  "length (filter P (concat xss)) = sum_list (map (\<lambda>xs. length (filter P xs)) xss)"
  by (induction xss) simp_all

lemma sum_list_ones: "\<forall>x\<in>set xs. f x = (1::nat) \<Longrightarrow> sum_list (map f xs) = length xs"
  by (induction xs) simp_all

lemma Fprintf_newlines:
  assumes "w div 10 \<le> 1000000"
      and "CHR 0x0A \<notin> set (Name r) \<union> set (Class r) \<union> set (Type r) \<union> set (Data r)"
  shows "length (filter (\<lambda>c. c = CHR 0x0A) (Fprintf w r)) = 1"
proof -
  have f: "CHR 0x0A \<notin> set s \<Longrightarrow> filter (\<lambda>c. c = CHR 0x0A) s = []" for s
    by (induction s) auto
  show ?thesis
    using assms(2) Itoa_no_newline [of "TTL r"]
    by (simp add: Fprintf_layout [OF assms(1)] f)
qed

lemma char_of_eqI: "(of_char c :: nat) = n \<Longrightarrow> char_of n = c"
  by auto

lemma digit_char_eval:
  "digit_char 0 = CHR ''0''" "digit_char 1 = CHR ''1''" "digit_char 2 = CHR ''2''"
  "digit_char 3 = CHR ''3''" "digit_char 4 = CHR ''4''" "digit_char 5 = CHR ''5''"
  "digit_char 6 = CHR ''6''" "digit_char 7 = CHR ''7''" "digit_char 8 = CHR ''8''"
  "digit_char 9 = CHR ''9''"
  unfolding digit_char_def by (rule char_of_eqI, simp)+

lemma replicate_numeral_eval: "replicate (numeral k) x = x # replicate (pred_numeral k) x"
  by (simp add: numeral_eq_Suc)

lemmas render_eval = replicate_numeral_eval render_def maxLen_def Fprintf_def pad_right_def pad_left_def Itoa_def
  digits_of.simps digit_char_eval RuneCountInString_ascii is_ascii_def

text \<open>
  C8, as stated, fails on a TTL of more than five digits and on a type of more than five
  characters: the widths of \<open>%5d\<close> and \<open>%-5s\<close> are minimal widths, and a longer value is
  printed in full, so these columns are not of fixed width. The name column is as wide
  as the longest name in bytes, but fmt pads by counting runes: a name with a two-byte
  character gets a space more than its length in bytes asks for.
\<close>

theorem fixed_width_counterexample:
  "render [\<lparr>Name = ''a.'', TTL = 604800, Class = ''IN'', Type = ''DNSKEY'', Data = ''x''\<rparr>] =
     ''a. 604800 IN DNSKEY x'' @ [CHR 0x0A] \<and>
   length (pad_left 5 (Itoa 604800)) = 6 \<and>
   length (pad_right 5 ''DNSKEY'') = 6 \<and>
   maxLen [\<lparr>Name = [CHR 0xC3, CHR 0xA9, CHR ''.''], TTL = 0, Class = ''IN'', Type = ''A'', Data = ''x''\<rparr>,
           \<lparr>Name = ''ab.'', TTL = 0, Class = ''IN'', Type = ''A'', Data = ''y''\<rparr>] = 3 \<and>
   length (pad_right 3 [CHR 0xC3, CHR 0xA9, CHR ''.'']) = 4"
  by (simp add: render_eval RuneCountInString.simps DecodeRuneInString_def first_def cont_def)

text \<open>
  C8, amended. The output is the concatenation, in the order of the list, of one line
  per record: the name, then spaces up to \<open>maxLen\<close> runes, a space, the TTL in decimal
  after the spaces that fill it up to five characters, a space, the class, a space, the
  type, then spaces up to five runes, a space, the data and a newline. \<open>maxLen\<close> is the
  greatest length in bytes of a name of the list, so no name has more runes, and a name
  of ASCII characters is padded to exactly \<open>maxLen\<close> bytes. When no field contains a
  newline the output has as many newlines as the list has records. The empty list gives
  the empty output. The layout is fmt's as long as \<open>maxLen\<close> is below 10000010.
\<close>

theorem render_layout:
  "render [] = [] \<and> maxLen [] = 0 \<and>
   (maxLen rs div 10 \<le> 1000000 \<longrightarrow>
      render rs = concat (map (\<lambda>r.
          Name r @ replicate (maxLen rs - RuneCountInString (Name r)) (CHR 0x20) @ '' '' @
          replicate (5 - length (Itoa (TTL r))) (CHR 0x20) @ Itoa (TTL r) @ '' '' @
          Class r @ '' '' @
          Type r @ replicate (5 - RuneCountInString (Type r)) (CHR 0x20) @ '' '' @
          Data r @ [CHR 0x0A]) rs)) \<and>
   (\<forall>r\<in>set rs. RuneCountInString (Name r) \<le> length (Name r) \<and> length (Name r) \<le> maxLen rs \<and>
      (is_ascii (Name r) \<longrightarrow> length (pad_right (maxLen rs) (Name r)) = maxLen rs)) \<and>
   (rs \<noteq> [] \<longrightarrow> (\<exists>r\<in>set rs. length (Name r) = maxLen rs)) \<and>
   (maxLen rs div 10 \<le> 1000000 \<and>
    (\<forall>r\<in>set rs. CHR 0x0A \<notin> set (Name r) \<union> set (Class r) \<union> set (Type r) \<union> set (Data r)) \<longrightarrow>
      length (filter (\<lambda>c. c = CHR 0x0A) (render rs)) = length rs)"
proof (intro conjI impI ballI)
  show "render [] = []" by (simp add: render_def)
  show "maxLen [] = 0" by (simp add: maxLen_def)
next
  assume "maxLen rs div 10 \<le> 1000000"
  then have "Fprintf (maxLen rs) = (\<lambda>r.
          Name r @ replicate (maxLen rs - RuneCountInString (Name r)) (CHR 0x20) @ '' '' @
          replicate (5 - length (Itoa (TTL r))) (CHR 0x20) @ Itoa (TTL r) @ '' '' @
          Class r @ '' '' @
          Type r @ replicate (5 - RuneCountInString (Type r)) (CHR 0x20) @ '' '' @
          Data r @ [CHR 0x0A])"
    by (intro ext Fprintf_layout)
  then show "render rs = concat (map (\<lambda>r.
          Name r @ replicate (maxLen rs - RuneCountInString (Name r)) (CHR 0x20) @ '' '' @
          replicate (5 - length (Itoa (TTL r))) (CHR 0x20) @ Itoa (TTL r) @ '' '' @
          Class r @ '' '' @
          Type r @ replicate (5 - RuneCountInString (Type r)) (CHR 0x20) @ '' '' @
          Data r @ [CHR 0x0A]) rs)"
    by (simp only: render_def)
next
  fix r assume "r \<in> set rs"
  show "RuneCountInString (Name r) \<le> length (Name r)" by (rule RuneCountInString_le)
next
  fix r assume "r \<in> set rs"
  then show "length (Name r) \<le> maxLen rs" by (rule maxLen_ge)
next
  fix r assume r: "r \<in> set rs" and a: "is_ascii (Name r)"
  show "length (pad_right (maxLen rs) (Name r)) = maxLen rs"
    using maxLen_ge [OF r] by (simp add: pad_right_def RuneCountInString_ascii [OF a])
next
  assume "rs \<noteq> []"
  then show "\<exists>r\<in>set rs. length (Name r) = maxLen rs" by (rule maxLen_attained)
next
  assume h: "maxLen rs div 10 \<le> 1000000 \<and>
    (\<forall>r\<in>set rs. CHR 0x0A \<notin> set (Name r) \<union> set (Class r) \<union> set (Type r) \<union> set (Data r))"
  then have "\<forall>r\<in>set rs. length (filter (\<lambda>c. c = CHR 0x0A) (Fprintf (maxLen rs) r)) = 1"
    using Fprintf_newlines by blast
  then have "sum_list (map (\<lambda>r. length (filter (\<lambda>c. c = CHR 0x0A) (Fprintf (maxLen rs) r))) rs)
      = length rs"
    by (rule sum_list_ones)
  then show "length (filter (\<lambda>c. c = CHR 0x0A) (render rs)) = length rs"
    by (simp add: render_def newlines_concat comp_def)
qed

theorem render_layout_witness:
  "maxLen [\<lparr>Name = ''example.com.'', TTL = 300, Class = ''IN'', Type = ''SOA'', Data = ''ns1 x''\<rparr>,
           \<lparr>Name = ''a.example.com.'', TTL = 86400, Class = ''IN'', Type = ''A'', Data = ''10.0.0.1''\<rparr>] = 14 \<and>
   render [\<lparr>Name = ''example.com.'', TTL = 300, Class = ''IN'', Type = ''SOA'', Data = ''ns1 x''\<rparr>,
           \<lparr>Name = ''a.example.com.'', TTL = 86400, Class = ''IN'', Type = ''A'', Data = ''10.0.0.1''\<rparr>] =
     ''example.com.     300 IN SOA   ns1 x'' @ [CHR 0x0A] @
     ''a.example.com. 86400 IN A     10.0.0.1'' @ [CHR 0x0A] \<and>
   is_ascii ''example.com.'' \<and>
   length (pad_right 14 ''example.com.'') = 14 \<and>
   length (filter (\<lambda>c. c = CHR 0x0A)
     (render [\<lparr>Name = ''example.com.'', TTL = 300, Class = ''IN'', Type = ''SOA'', Data = ''ns1 x''\<rparr>,
              \<lparr>Name = ''a.example.com.'', TTL = 86400, Class = ''IN'', Type = ''A'', Data = ''10.0.0.1''\<rparr>])) = 2"
proof -
  let ?rs = "[\<lparr>Name = ''example.com.'', TTL = 300, Class = ''IN'', Type = ''SOA'', Data = ''ns1 x''\<rparr>,
           \<lparr>Name = ''a.example.com.'', TTL = 86400, Class = ''IN'', Type = ''A'', Data = ''10.0.0.1''\<rparr>]"
  have m: "maxLen ?rs = 14" by (simp add: maxLen_def)
  have r: "render ?rs = ''example.com.     300 IN SOA   ns1 x'' @ [CHR 0x0A] @
     ''a.example.com. 86400 IN A     10.0.0.1'' @ [CHR 0x0A]"
    by (simp add: render_eval)
  have a: "is_ascii ''example.com.''" by (simp add: is_ascii_def)
  show ?thesis
    using render_layout [of ?rs] m r a by simp
qed

subsection \<open>Formatting the output again\<close>

lemma span_append:
  assumes "\<forall>x\<in>set xs. P x" "ys = [] \<or> \<not> P (hd ys)"
  shows "span P (xs @ ys) = (xs, ys)"
proof -
  have t: "takeWhile P ys = []" and d: "dropWhile P ys = ys"
    using assms(2) by (cases ys; simp)+
  show ?thesis
    using assms(1) by (simp add: span_def takeWhile_append2 dropWhile_append2 t d)
qed

lemma hd_append_ne: "xs \<noteq> [] \<Longrightarrow> hd (xs @ ys) = hd xs"
  by (cases xs) auto

lemma rex_tail_fields:
  assumes c: "cls \<noteq> []" "\<forall>x\<in>set cls. \<not> isSpace x"
      and w3: "ws3 \<noteq> []" "\<forall>x\<in>set ws3. isSpace x"
      and t: "typ \<noteq> []" "\<forall>x\<in>set typ. \<not> isSpace x"
      and w4: "ws4 \<noteq> []" "\<forall>x\<in>set ws4. isSpace x"
      and d: "dat = [] \<or> \<not> isSpace (hd dat)" "CHR 0x0A \<notin> set dat"
  shows "rex_tail (cls @ ws3 @ typ @ ws4 @ dat) = Some (cls, typ, dat)"
proof -
  have s1: "span (\<lambda>c. \<not> isSpace c) (cls @ ws3 @ typ @ ws4 @ dat) = (cls, ws3 @ typ @ ws4 @ dat)"
    using c w3 by (intro span_append) (auto simp: hd_append_ne)
  have s2: "span isSpace (ws3 @ typ @ ws4 @ dat) = (ws3, typ @ ws4 @ dat)"
    using w3 t by (intro span_append) (auto simp: hd_append_ne)
  have s3: "span (\<lambda>c. \<not> isSpace c) (typ @ ws4 @ dat) = (typ, ws4 @ dat)"
    using t w4 by (intro span_append) (auto simp: hd_append_ne)
  have s4: "span isSpace (ws4 @ dat) = (ws4, dat)"
    using w4 d by (intro span_append) auto
  show ?thesis
    using c w3 t w4 d by (simp add: rex_tail_def s1 s2 s3 s4)
qed

text \<open>The expression matches a line of five fields and finds them.\<close>

lemma FindStringSubmatch_fields:
  assumes n: "name \<noteq> []" "\<forall>x\<in>set name. \<not> isSpace x"
      and w1: "ws1 \<noteq> []" "\<forall>x\<in>set ws1. isSpace x"
      and g: "digits \<noteq> []" "\<forall>x\<in>set digits. isDigit x"
      and w2: "ws2 \<noteq> []" "\<forall>x\<in>set ws2. isSpace x"
      and c: "cls \<noteq> []" "\<forall>x\<in>set cls. \<not> isSpace x"
      and w3: "ws3 \<noteq> []" "\<forall>x\<in>set ws3. isSpace x"
      and t: "typ \<noteq> []" "\<forall>x\<in>set typ. \<not> isSpace x"
      and w4: "ws4 \<noteq> []" "\<forall>x\<in>set ws4. isSpace x"
      and d: "dat = [] \<or> \<not> isSpace (hd dat)" "CHR 0x0A \<notin> set dat"
  shows "FindStringSubmatch (name @ ws1 @ digits @ ws2 @ cls @ ws3 @ typ @ ws4 @ dat) =
     Some [name @ ws1 @ digits @ ws2 @ cls @ ws3 @ typ @ ws4 @ dat, name, digits, cls, typ, dat]"
proof -
  let ?r3 = "cls @ ws3 @ typ @ ws4 @ dat"
  have dg: "\<not> isSpace (hd digits)" "\<not> isDigit (hd ws2)"
    using g w2 isDigit_not_sign by (metis list.set_sel(1))+
  have s1: "span (\<lambda>c. \<not> isSpace c) (name @ ws1 @ digits @ ws2 @ ?r3) = (name, ws1 @ digits @ ws2 @ ?r3)"
    using n w1 by (intro span_append) (auto simp: hd_append_ne)
  have s2: "span isSpace (ws1 @ digits @ ws2 @ ?r3) = (ws1, digits @ ws2 @ ?r3)"
    using w1 g dg by (intro span_append) (auto simp: hd_append_ne)
  have s3: "span isDigit (digits @ ws2 @ ?r3) = (digits, ws2 @ ?r3)"
    using g w2 dg by (intro span_append) (auto simp: hd_append_ne)
  have s4: "span isSpace (ws2 @ ?r3) = (ws2, ?r3)"
    using w2 c by (intro span_append) (auto simp: hd_append_ne)
  have rt: "rex_tail ?r3 = Some (cls, typ, dat)"
    using c w3 t w4 d by (rule rex_tail_fields)
  show ?thesis
    using n w1 g w2 by (simp add: FindStringSubmatch_def s1 s2 s3 s4 rt)
qed

lemma isDigit_iff: "isDigit c \<longleftrightarrow> 48 \<le> (of_char c :: nat) \<and> (of_char c :: nat) \<le> 57"
  by (simp add: isDigit_def less_eq_char_def)

lemma isDigit_digit_char: "k < 10 \<Longrightarrow> isDigit (digit_char k)"
  by (simp add: isDigit_iff of_char_digit_char)

lemma digit_val_digit_char: "k < 10 \<Longrightarrow> digit_val (digit_char k) = k"
  by (simp add: digit_val_def of_char_digit_char)

lemma decimal_snoc: "decimal (xs @ [c]) = decimal xs * 10 + digit_val c"
  by (simp add: decimal_def)

lemma digits_of_props:
  "digits_of n \<noteq> [] \<and> (\<forall>c\<in>set (digits_of n). isDigit c) \<and> decimal (digits_of n) = n"
proof (induction n rule: digits_of.induct)
  case (1 n)
  show ?case
  proof (cases "n < 10")
    case True
    then show ?thesis
      by (subst (1 2 3) digits_of.simps)
        (simp add: isDigit_digit_char decimal_def digit_val_digit_char)
  next
    case False
    then have ih: "digits_of (n div 10) \<noteq> []" "\<forall>c\<in>set (digits_of (n div 10)). isDigit c"
      "decimal (digits_of (n div 10)) = n div 10"
      using 1 by auto
    have e: "digits_of n = digits_of (n div 10) @ [digit_char (n mod 10)]"
      using False by (subst digits_of.simps) simp
    show ?thesis
      using ih by (simp add: e decimal_snoc isDigit_digit_char digit_val_digit_char)
  qed
qed

lemma Itoa_nonneg:
  assumes "0 \<le> i"
  shows "Itoa i \<noteq> []" "\<forall>c\<in>set (Itoa i). isDigit c" "int (decimal (Itoa i)) = i"
  using assms digits_of_props [of "nat i"] by (simp_all add: Itoa_def)

lemma Fprintf_printed_line:
  "w div 10 \<le> 1000000 \<Longrightarrow> Fprintf w r = printed_line w r @ [CHR 0x0A]"
  by (simp add: Fprintf_layout printed_line_def)

lemma isSpace_space: "isSpace (CHR 0x20)"
  by (simp add: isSpace_def)

lemma printed_line_match:
  assumes "well_formed r" "reparsable r"
  shows "FindStringSubmatch (printed_line w r) =
     Some [printed_line w r, Name r, Itoa (TTL r), Class r, Type r, Data r]"
  unfolding printed_line_def
proof (rule FindStringSubmatch_fields)
  show "Name r \<noteq> []" "\<forall>x\<in>set (Name r). \<not> isSpace x"
    using assms(2) by (auto simp: reparsable_def)
  show "Itoa (TTL r) \<noteq> []" "\<forall>x\<in>set (Itoa (TTL r)). isDigit x"
    using assms(2) Itoa_nonneg by (auto simp: reparsable_def)
  show "Class r \<noteq> []" "\<forall>x\<in>set (Class r). \<not> isSpace x" "Type r \<noteq> []"
    "\<forall>x\<in>set (Type r). \<not> isSpace x" "Data r = [] \<or> \<not> isSpace (hd (Data r))"
    "CHR 0x0A \<notin> set (Data r)"
    using assms(1) by (auto simp: well_formed_def)
qed (auto simp: isSpace_space)

lemma printed_line_parse:
  assumes "well_formed r" "reparsable r" "t = 0 \<or> TTL r \<noteq> 0"
  shows "parseRecord lib (printed_line w r) z t = Inr r"
proof -
  have t: "0 \<le> TTL r" "TTL r < 2 ^ 63" and n: "Name r \<noteq> []" "last (Name r) = CHR ''.''"
    using assms(2) by (auto simp: reparsable_def)
  have i: "int (decimal (Itoa (TTL r))) = TTL r" "Itoa (TTL r) \<noteq> []"
    using Itoa_nonneg [OF t(1)] by auto
  have "int (decimal (Itoa (TTL r))) < int (2 ^ 63)"
    using i(1) t(2) by simp
  then have lt: "\<not> decimal (Itoa (TTL r)) \<ge> 2 ^ 63"
    by (simp only: of_nat_less_iff not_le)
  have z: "decimal (Itoa (TTL r)) = 0 \<Longrightarrow> TTL r = 0 \<and> t = 0"
    using i(1) assms(3) by auto
  have at: "Name r \<noteq> ''@''"
    using n(2) by auto
  have d: "Type r = ''TXT'' \<Longrightarrow> Data r \<noteq> [] \<and> hd (Data r) = CHR 0x22"
    using assms(1) by (simp add: well_formed_def)
  show ?thesis
    using lt z at d n i
    by (auto simp: parseRecord_match [OF printed_line_match [OF assms(1,2)]])
qed

lemma Scan_Nil: "Scan [] = []"
  by (simp add: Scan.simps)

lemma Scan_line:
  assumes "CHR 0x0A \<notin> set l" "length l < 65536"
  shows "Scan (l @ CHR 0x0A # rest) = dropCR l # Scan rest"
proof -
  have t: "takeWhile (\<lambda>c. c \<noteq> CHR 0x0A) (l @ CHR 0x0A # rest) = l"
    using assms(1) by (induction l) auto
  have d: "dropWhile (\<lambda>c. c \<noteq> CHR 0x0A) (l @ CHR 0x0A # rest) = CHR 0x0A # rest"
    using assms(1) by (induction l) auto
  show ?thesis
    using assms(2) by (subst Scan.simps) (simp add: t d)
qed

lemma Scan_lines:
  assumes "\<forall>l\<in>set ls. CHR 0x0A \<notin> set l \<and> length l < 65536"
  shows "Scan (concat (map (\<lambda>l. l @ [CHR 0x0A]) ls)) = map dropCR ls"
  using assms
proof (induction ls)
  case Nil
  then show ?case by (simp add: Scan_Nil)
next
  case (Cons l ls)
  then show ?case by (simp add: Scan_line)
qed

lemma isSpace_newline: "isSpace (CHR 0x0A)"
  by (simp add: isSpace_def)

lemma printed_line_props:
  assumes "well_formed r" "reparsable r"
  shows "printed_line w r \<noteq> []" "hd (printed_line w r) \<noteq> CHR ''$''"
    "CHR 0x0A \<notin> set (printed_line w r)" "dropCR (printed_line w r) = printed_line w r"
proof -
  have n: "Name r \<noteq> []" "hd (Name r) \<noteq> CHR ''$''" "\<forall>c\<in>set (Name r). \<not> isSpace c"
    and cr: "Data r \<noteq> [] \<Longrightarrow> last (Data r) \<noteq> CHR 0x0D"
    using assms(2) by (auto simp: reparsable_def)
  have f: "\<forall>c\<in>set (Class r). \<not> isSpace c" "\<forall>c\<in>set (Type r). \<not> isSpace c"
    "CHR 0x0A \<notin> set (Data r)"
    using assms(1) by (auto simp: well_formed_def)
  show "printed_line w r \<noteq> []"
    using n(1) by (simp add: printed_line_def)
  show "hd (printed_line w r) \<noteq> CHR ''$''"
    using n(1,2) by (simp add: printed_line_def hd_append_ne)
  show "CHR 0x0A \<notin> set (printed_line w r)"
    using n(3) f Itoa_no_newline [of "TTL r"] isSpace_newline
    by (auto simp: printed_line_def)
  show "dropCR (printed_line w r) = printed_line w r"
  proof (cases "Data r = []")
    case True
    then show ?thesis by (simp add: printed_line_def dropCR_def)
  next
    case False
    then have "last (printed_line w r) = last (Data r)"
      by (simp add: printed_line_def)
    then show ?thesis
      using cr [OF False] by (simp add: dropCR_def)
  qed
qed

lemma step_printed_line:
  assumes "well_formed r" "reparsable r" "ttl st = 0 \<or> TTL r \<noteq> 0"
  shows "step lib st (printed_line w r) = Inr (st\<lparr>rr := rr st @ [r]\<rparr>)"
proof -
  obtain c cs where l: "printed_line w r = c # cs" and c: "c \<noteq> CHR ''$''"
    using printed_line_props(1,2) [OF assms(1,2), of w] by (cases "printed_line w r") auto
  have "parseRecord lib (c # cs) (zone st) (ttl st) = Inr r"
    using printed_line_parse [OF assms, of lib w "zone st"] l by simp
  then show ?thesis
    using c by (simp add: l step_def index_def)
qed

lemma loop_printed_lines:
  assumes "\<forall>r\<in>set rs. well_formed r \<and> reparsable r" "ttl st = 0 \<or> (\<forall>r\<in>set rs. TTL r \<noteq> 0)"
  shows "loop lib st (map (printed_line w) rs) = Inr (st\<lparr>rr := rr st @ rs\<rparr>)"
  using assms
proof (induction rs arbitrary: st)
  case Nil
  then show ?case by simp
next
  case (Cons r rs)
  have s: "step lib st (printed_line w r) = Inr (st\<lparr>rr := rr st @ [r]\<rparr>)"
    using Cons.prems by (intro step_printed_line) auto
  have "loop lib (st\<lparr>rr := rr st @ [r]\<rparr>) (map (printed_line w) rs) =
      Inr (st\<lparr>rr := rr st @ [r]\<rparr>\<lparr>rr := rr (st\<lparr>rr := rr st @ [r]\<rparr>) @ rs\<rparr>)"
    using Cons.prems by (intro Cons.IH) auto
  then show ?case
    by (simp add: s)
qed

lemma AppendRune_bytes: "r \<ge> 0x20 \<Longrightarrow> \<forall>c\<in>set (AppendRune r). (of_char c :: nat) \<ge> 0x20"
  unfolding AppendRune_def
  by (simp add: Let_def)

lemma lowerhex_byte: "(of_char (lowerhex n) :: nat) \<ge> 0x20"
proof -
  have "lowerhex n \<in> set ''0123456789abcdef''"
    unfolding lowerhex_def by (rule nth_mem) simp
  then show ?thesis by auto
qed

lemma appendEscapedRune_bytes:
  "\<forall>c\<in>set (appendEscapedRune lib r). (of_char c :: nat) \<ge> 0x20"
proof -
  have a: "r \<ge> 0x20 \<Longrightarrow> \<forall>c\<in>set (AppendRune r). (of_char c :: nat) \<ge> 0x20"
    by (rule AppendRune_bytes)
  show ?thesis
    unfolding appendEscapedRune_def
    by (cases "r \<ge> 0x20") (auto simp: Let_def lowerhex_byte dest: a [rule_format])
qed

lemma quoted_bytes: "\<forall>c\<in>set (quoted lib s). (of_char c :: nat) \<ge> 0x20"
proof (induction lib s rule: quoted.induct)
  case (1 lib s)
  show ?case
  proof (cases "s = []")
    case True
    then show ?thesis by (simp add: quoted_Nil)
  next
    case False
    obtain r width where rw:
      "(if (of_char (s ! 0) :: nat) \<ge> 0x80 then DecodeRuneInString s else (of_char (s ! 0), 1))
        = (r, width)"
      by (cases "if (of_char (s ! 0) :: nat) \<ge> 0x80 then DecodeRuneInString s else (of_char (s ! 0), 1)")
    have ih: "\<forall>c\<in>set (quoted lib (drop width s)). (of_char c :: nat) \<ge> 0x20"
      using 1 [OF False rw [symmetric] refl] .
    have e: "quoted lib s =
        (if width = 1 \<and> r = RuneError
         then [CHR 0x5C, CHR ''x'', lowerhex (of_char (s ! 0) div 16), lowerhex (of_char (s ! 0))]
         else appendEscapedRune lib r) @ quoted lib (drop width s)"
      using False rw by (subst quoted.simps) simp
    show ?thesis
      using ih appendEscapedRune_bytes [of lib r]
      by (auto simp: e lowerhex_byte)
  qed
qed

lemma Quote_props:
  "Quote lib s \<noteq> []" "hd (Quote lib s) = CHR 0x22" "CHR 0x0A \<notin> set (Quote lib s)"
  "\<not> isSpace (hd (Quote lib s))" "last (Quote lib s) = CHR 0x22"
  using quoted_bytes [of lib s] by (auto simp: Quote_def isSpace_def)

lemma parseRecord_well_formed:
  assumes "parseRecord lib line z t = Inr r"
  shows "well_formed r"
proof -
  from assms obtain m where m: "FindStringSubmatch line = Some m"
    by (cases "FindStringSubmatch line") (auto simp: parseRecord_def)
  from FindStringSubmatch_Some [OF m] obtain name digits cls ty dat where
    e: "m = [line, name, digits, cls, ty, dat]" and
    f: "cls \<noteq> []" "\<forall>c\<in>set cls. \<not> isSpace c" "ty \<noteq> []" "\<forall>c\<in>set ty. \<not> isSpace c"
       "dat = [] \<or> \<not> isSpace (hd dat)" "CHR 0x0A \<notin> set dat"
    by blast
  have r: "Class r = cls" "Type r = ty"
    "Data r = (if ty = ''TXT'' \<and> hd dat \<noteq> CHR 0x22 then Quote lib dat else dat)"
    "\<not> (ty = ''TXT'' \<and> dat = [])"
    using assms parseRecord_match [OF m [unfolded e], of lib z t]
    by (auto split: if_splits)
  show ?thesis
    using f r(4) Quote_props [of lib dat]
    by (auto simp: well_formed_def r(1,2,3))
qed

lemma step_well_formed:
  assumes "step lib st l = Inr st'" "\<forall>r\<in>set (rr st). well_formed r"
  shows "\<forall>r\<in>set (rr st'). well_formed r"
proof (cases l)
  case Nil
  with assms(1) show ?thesis by (simp add: step_def index_def)
next
  case (Cons c cs)
  show ?thesis
  proof (cases "c = CHR ''$''")
    case True
    then have "rr st' = rr st"
      using assms(1) Cons
      by (auto simp: step_def index_def Let_def split: sum.splits if_splits)
    with assms(2) show ?thesis by simp
  next
    case False
    then show ?thesis
      using assms Cons parseRecord_well_formed [of lib l "zone st" "ttl st"]
      by (auto simp: step_def index_def split: sum.splits failure.splits)
  qed
qed

lemma loop_well_formed:
  "loop lib st ls = Inr st' \<Longrightarrow> \<forall>r\<in>set (rr st). well_formed r \<Longrightarrow>
     \<forall>r\<in>set (rr st'). well_formed r"
proof (induction ls arbitrary: st)
  case Nil
  then show ?case by simp
next
  case (Cons l ls)
  from Cons.prems(1) obtain st1 where s: "step lib st l = Inr st1" and l: "loop lib st1 ls = Inr st'"
    by (auto split: sum.splits)
  show ?case
    using Cons.IH [OF l step_well_formed [OF s Cons.prems(2)]] .
qed

lemma maxLen_set: "set rs = set rs' \<Longrightarrow> maxLen rs = maxLen rs'"
proof (rule antisym)
  assume s: "set rs = set rs'"
  show "maxLen rs \<le> maxLen rs'"
  proof (cases "rs = []")
    case True
    then show ?thesis by (simp add: maxLen_def)
  next
    case False
    then obtain r where "r \<in> set rs" "length (Name r) = maxLen rs"
      using maxLen_attained by blast
    then show ?thesis using maxLen_ge [of r rs'] s by simp
  qed
  show "maxLen rs' \<le> maxLen rs"
  proof (cases "rs' = []")
    case True
    then show ?thesis by (simp add: maxLen_def)
  next
    case False
    then obtain r where "r \<in> set rs'" "length (Name r) = maxLen rs'"
      using maxLen_attained by blast
    then show ?thesis using maxLen_ge [of r rs] s by simp
  qed
qed

lemma length_Fprintf_ge: "length (Name r) \<le> length (Fprintf w r)"
  by (simp add: Fprintf_def pad_right_def)

lemma maxLen_bound:
  assumes "\<forall>r\<in>set rs. length (Fprintf (maxLen rs) r) \<le> 65536"
  shows "maxLen rs div 10 \<le> 1000000"
proof (cases "rs = []")
  case True
  then show ?thesis by (simp add: maxLen_def)
next
  case False
  then obtain r where r: "r \<in> set rs" "length (Name r) = maxLen rs"
    using maxLen_attained by blast
  then have "maxLen rs \<le> 65536"
    using assms length_Fprintf_ge [of r "maxLen rs"] by (metis le_trans)
  then show ?thesis by simp
qed

lemma render_again:
  assumes wf: "\<forall>r\<in>set rs. well_formed r \<and> reparsable r"
      and len: "\<forall>r\<in>set rs. length (Fprintf (maxLen rs) r) \<le> 65536"
      and srt: "Sort lib (Less sorting) rs = rs"
      and pre: "loop lib init_state pre = Inr st0" "rr st0 = []"
        "ttl st0 = 0 \<or> (\<forall>r\<in>set rs. TTL r \<noteq> 0)"
  shows "format_lines lib sorting (pre @ Scan (render rs)) = Inr (render rs)"
proof -
  let ?w = "maxLen rs"
  have w: "?w div 10 \<le> 1000000" using len by (rule maxLen_bound)
  have "Fprintf ?w = (\<lambda>r. printed_line ?w r @ [CHR 0x0A])"
    by (intro ext Fprintf_printed_line w)
  then have r: "render rs = concat (map (\<lambda>l. l @ [CHR 0x0A]) (map (printed_line ?w) rs))"
    by (simp add: render_def comp_def)
  have l: "\<forall>l\<in>set (map (printed_line ?w) rs). CHR 0x0A \<notin> set l \<and> length l < 65536"
    using wf len printed_line_props(3) by (auto simp: Fprintf_printed_line [OF w])
  have "Scan (render rs) = map dropCR (map (printed_line ?w) rs)"
    unfolding r using l by (rule Scan_lines)
  also have "\<dots> = map (printed_line ?w) rs"
    using wf printed_line_props(4) by simp
  finally have s: "Scan (render rs) = map (printed_line ?w) rs" .
  have "loop lib st0 (map (printed_line ?w) rs) = Inr (st0\<lparr>rr := rr st0 @ rs\<rparr>)"
    using wf pre(3) by (intro loop_printed_lines)
  then show ?thesis
    by (simp add: format_lines_def s loop_append pre(1,2) srt)
qed

lemmas format_eval = formatZone_def format_lines_def init_state_def step_def index_def SplitN2_def
  Scan.simps dropCR_def

text \<open>
  C3, as stated, fails. The output carries no directives and the names are printed as
  they were resolved: under an origin without a final dot the name \<open>www\<close> is printed as
  \<open>www.example.com\<close>, and a second run makes \<open>www.example.com.\<close> of it, or
  \<open>www.example.com.example.com\<close> when the directive is put before the output. Without
  an origin the name \<open>@\<close> is printed as the empty name, and the second run panics on
  the line, which begins with a space.
\<close>

theorem format_twice_counterexample:
  "formatZone sample_library default_sorting
     (''$ORIGIN example.com'' @ [CHR 0x0A] @ ''www IN A 10.0.0.1'' @ [CHR 0x0A]) =
     Inr (''www.example.com     0 IN A     10.0.0.1'' @ [CHR 0x0A]) \<and>
   formatZone sample_library default_sorting
     (''www.example.com     0 IN A     10.0.0.1'' @ [CHR 0x0A]) =
     Inr (''www.example.com.     0 IN A     10.0.0.1'' @ [CHR 0x0A]) \<and>
   formatZone sample_library default_sorting
     (''$ORIGIN example.com'' @ [CHR 0x0A] @ ''www.example.com     0 IN A     10.0.0.1'' @ [CHR 0x0A]) =
     Inr (''www.example.com.example.com     0 IN A     10.0.0.1'' @ [CHR 0x0A]) \<and>
   formatZone sample_library default_sorting (''@ IN A 10.0.0.1'' @ [CHR 0x0A]) =
     Inr (''     0 IN A     10.0.0.1'' @ [CHR 0x0A]) \<and>
   formatZone sample_library default_sorting (''     0 IN A     10.0.0.1'' @ [CHR 0x0A]) = Inl Panic"
  by (simp add: format_eval parse_eval sort_eval render_eval)

text \<open>
  C3, amended. Let the first run parse all lines, let every record it collects have a
  name that is not empty, ends in a dot, has no white space and does not begin with
  \<open>$\<close>, a TTL from 0 to the greatest int64, data that does not end in a carriage
  return, and a printed line that fits the scanner's buffer; let \<open>sort.Sort\<close> meet its
  contract and leave the sorted list as it is when it sorts it again. Then formatZone
  returns the rendered sorted list, and formatZone on that output returns the same
  bytes. So does a run on the lines of that output after any lines that collect no
  record and leave the default TTL at 0, or at any value when no record has the TTL 0:
  the directives of the first run, for one.
\<close>

theorem format_idempotent:
  assumes "sort_contract lib sorting"
      and "loop lib init_state (Scan zoneFile) = Inr st"
      and "\<forall>r\<in>set (rr st). reparsable r \<and> length (Fprintf (maxLen (rr st)) r) \<le> 65536"
      and "Sort lib (Less sorting) (Sort lib (Less sorting) (rr st)) = Sort lib (Less sorting) (rr st)"
  shows "formatZone lib sorting zoneFile = Inr (render (Sort lib (Less sorting) (rr st))) \<and>
     formatZone lib sorting (render (Sort lib (Less sorting) (rr st))) =
       Inr (render (Sort lib (Less sorting) (rr st))) \<and>
     (loop lib init_state pre = Inr st0 \<and> rr st0 = [] \<and>
      (ttl st0 = 0 \<or> (\<forall>r\<in>set (rr st). TTL r \<noteq> 0)) \<longrightarrow>
        format_lines lib sorting (pre @ Scan (render (Sort lib (Less sorting) (rr st)))) =
          Inr (render (Sort lib (Less sorting) (rr st))))"
proof -
  let ?rs = "Sort lib (Less sorting) (rr st)"
  have "mset ?rs = mset (rr st)"
    using assms(1) by (simp add: sort_contract_def)
  then have s: "set ?rs = set (rr st)"
    by (rule mset_eq_setD)
  have m: "maxLen ?rs = maxLen (rr st)"
    using s by (rule maxLen_set)
  have "\<forall>r\<in>set (rr st). well_formed r"
    using loop_well_formed [OF assms(2)] by (simp add: init_state_def)
  then have wf: "\<forall>r\<in>set ?rs. well_formed r \<and> reparsable r"
    using assms(3) s by simp
  have len: "\<forall>r\<in>set ?rs. length (Fprintf (maxLen ?rs) r) \<le> 65536"
    using assms(3) s m by simp
  have first: "formatZone lib sorting zoneFile = Inr (render ?rs)"
    by (simp add: formatZone_def format_lines_def assms(2))
  have i: "loop lib init_state [] = Inr init_state" "rr init_state = []" "ttl init_state = 0"
    by (simp_all add: init_state_def)
  have second: "formatZone lib sorting (render ?rs) = Inr (render ?rs)"
    using render_again [OF wf len assms(4) i(1,2)] i(3)
    by (simp add: formatZone_def)
  have third: "format_lines lib sorting (pre @ Scan (render ?rs)) = Inr (render ?rs)"
    if "loop lib init_state pre = Inr st0" "rr st0 = []"
       "ttl st0 = 0 \<or> (\<forall>r\<in>set (rr st). TTL r \<noteq> 0)"
    using render_again [OF wf len assms(4) that(1,2)] that(3) s by simp
  show ?thesis
    using first second third by blast
qed

theorem format_idempotent_witness:
  "sort_contract sample_library default_sorting \<and>
   loop sample_library init_state
     (Scan (''$ORIGIN example.com.'' @ [CHR 0x0A] @ ''$TTL 1h'' @ [CHR 0x0A] @
            ''www IN A 10.0.0.1'' @ [CHR 0x0A] @ ''@ 300 IN SOA ns1.example.com. x'' @ [CHR 0x0A] @
            ''txt IN TXT hello world'' @ [CHR 0x0A])) =
     Inr \<lparr>zone = ''example.com.'', ttl = 3600,
          rr = [\<lparr>Name = ''www.example.com.'', TTL = 3600, Class = ''IN'', Type = ''A'',
                  Data = ''10.0.0.1''\<rparr>,
                \<lparr>Name = ''example.com.'', TTL = 300, Class = ''IN'', Type = ''SOA'',
                  Data = ''ns1.example.com. x''\<rparr>,
                \<lparr>Name = ''txt.example.com.'', TTL = 3600, Class = ''IN'', Type = ''TXT'',
                  Data = [CHR 0x22] @ ''hello world'' @ [CHR 0x22]\<rparr>],
          logged = []\<rparr> \<and>
   reparsable \<lparr>Name = ''www.example.com.'', TTL = 3600, Class = ''IN'', Type = ''A'',
                Data = ''10.0.0.1''\<rparr> \<and>
   reparsable \<lparr>Name = ''example.com.'', TTL = 300, Class = ''IN'', Type = ''SOA'',
                Data = ''ns1.example.com. x''\<rparr> \<and>
   reparsable \<lparr>Name = ''txt.example.com.'', TTL = 3600, Class = ''IN'', Type = ''TXT'',
                Data = [CHR 0x22] @ ''hello world'' @ [CHR 0x22]\<rparr> \<and>
   formatZone sample_library default_sorting
     (''$ORIGIN example.com.'' @ [CHR 0x0A] @ ''$TTL 1h'' @ [CHR 0x0A] @
      ''www IN A 10.0.0.1'' @ [CHR 0x0A] @ ''@ 300 IN SOA ns1.example.com. x'' @ [CHR 0x0A] @
      ''txt IN TXT hello world'' @ [CHR 0x0A]) =
     Inr (''example.com.       300 IN SOA   ns1.example.com. x'' @ [CHR 0x0A] @
          ''txt.example.com.  3600 IN TXT   '' @ [CHR 0x22] @ ''hello world'' @ [CHR 0x22, CHR 0x0A] @
          ''www.example.com.  3600 IN A     10.0.0.1'' @ [CHR 0x0A]) \<and>
   formatZone sample_library default_sorting
     (''example.com.       300 IN SOA   ns1.example.com. x'' @ [CHR 0x0A] @
      ''txt.example.com.  3600 IN TXT   '' @ [CHR 0x22] @ ''hello world'' @ [CHR 0x22, CHR 0x0A] @
      ''www.example.com.  3600 IN A     10.0.0.1'' @ [CHR 0x0A]) =
     Inr (''example.com.       300 IN SOA   ns1.example.com. x'' @ [CHR 0x0A] @
          ''txt.example.com.  3600 IN TXT   '' @ [CHR 0x22] @ ''hello world'' @ [CHR 0x22, CHR 0x0A] @
          ''www.example.com.  3600 IN A     10.0.0.1'' @ [CHR 0x0A]) \<and>
   loop sample_library init_state [''$ORIGIN example.com.'', ''$TTL 1h''] =
     Inr \<lparr>zone = ''example.com.'', ttl = 3600, rr = [], logged = []\<rparr> \<and>
   format_lines sample_library default_sorting
     ([''$ORIGIN example.com.'', ''$TTL 1h''] @
      Scan (''example.com.       300 IN SOA   ns1.example.com. x'' @ [CHR 0x0A] @
            ''txt.example.com.  3600 IN TXT   '' @ [CHR 0x22] @ ''hello world'' @ [CHR 0x22, CHR 0x0A] @
            ''www.example.com.  3600 IN A     10.0.0.1'' @ [CHR 0x0A])) =
     Inr (''example.com.       300 IN SOA   ns1.example.com. x'' @ [CHR 0x0A] @
          ''txt.example.com.  3600 IN TXT   '' @ [CHR 0x22] @ ''hello world'' @ [CHR 0x22, CHR 0x0A] @
          ''www.example.com.  3600 IN A     10.0.0.1'' @ [CHR 0x0A])"
proof -
  let ?zf = "''$ORIGIN example.com.'' @ [CHR 0x0A] @ ''$TTL 1h'' @ [CHR 0x0A] @
      ''www IN A 10.0.0.1'' @ [CHR 0x0A] @ ''@ 300 IN SOA ns1.example.com. x'' @ [CHR 0x0A] @
      ''txt IN TXT hello world'' @ [CHR 0x0A]"
  let ?a = "\<lparr>Name = ''www.example.com.'', TTL = 3600, Class = ''IN'', Type = ''A'',
                Data = ''10.0.0.1''\<rparr>"
  let ?s = "\<lparr>Name = ''example.com.'', TTL = 300, Class = ''IN'', Type = ''SOA'',
                Data = ''ns1.example.com. x''\<rparr>"
  let ?t = "\<lparr>Name = ''txt.example.com.'', TTL = 3600, Class = ''IN'', Type = ''TXT'',
                Data = [CHR 0x22] @ ''hello world'' @ [CHR 0x22]\<rparr>"
  let ?st = "\<lparr>zone = ''example.com.'', ttl = 3600, rr = [?a, ?s, ?t], logged = []\<rparr>"
  have c: "sort_contract sample_library default_sorting"
    by (rule sample_sort_contract)
  have d: "ParseDuration sample_library ''1h'' = Inr 3600000000000"
    "Seconds sample_library 3600000000000 = 3600"
    by (simp_all add: sample_library_def)
  have l: "loop sample_library init_state (Scan ?zf) = Inr ?st"
    by (simp add: format_eval parse_eval d)
  have r: "reparsable ?a" "reparsable ?s" "reparsable ?t"
    by (simp_all add: reparsable_def isSpace_def)
  have m: "maxLen [?a, ?s, ?t] = 16"
    by (simp add: maxLen_def)
  have f: "length (Fprintf 16 ?a) \<le> 65536" "length (Fprintf 16 ?s) \<le> 65536"
    "length (Fprintf 16 ?t) \<le> 65536"
    by (simp_all add: render_eval)
  have n: "\<forall>r\<in>set (rr ?st). reparsable r \<and> length (Fprintf (maxLen (rr ?st)) r) \<le> 65536"
    using r f m by simp
  have srt: "Sort sample_library (Less default_sorting) (rr ?st) = [?s, ?t, ?a]"
    by (simp add: sort_eval)
  have i: "Sort sample_library (Less default_sorting)
       (Sort sample_library (Less default_sorting) (rr ?st)) =
     Sort sample_library (Less default_sorting) (rr ?st)"
    unfolding srt by (simp add: sort_eval)
  have o: "render [?s, ?t, ?a] =
     ''example.com.       300 IN SOA   ns1.example.com. x'' @ [CHR 0x0A] @
     ''txt.example.com.  3600 IN TXT   '' @ [CHR 0x22] @ ''hello world'' @ [CHR 0x22, CHR 0x0A] @
     ''www.example.com.  3600 IN A     10.0.0.1'' @ [CHR 0x0A]"
    by (simp add: render_eval)
  let ?pre = "[''$ORIGIN example.com.'', ''$TTL 1h'']"
  let ?ctx = "\<lparr>zone = ''example.com.'', ttl = 3600, rr = [], logged = []\<rparr>"
  have p: "loop sample_library init_state ?pre = Inr ?ctx"
    by (simp add: format_eval d)
  have q: "loop sample_library init_state ?pre = Inr ?ctx \<and> rr ?ctx = [] \<and>
      (ttl ?ctx = 0 \<or> (\<forall>r\<in>set (rr ?st). TTL r \<noteq> 0))"
    using p by simp
  note fi = format_idempotent [OF c l n i, of ?pre ?ctx]
  have f1: "formatZone sample_library default_sorting ?zf = Inr (render [?s, ?t, ?a])"
    using fi [THEN conjunct1] unfolding srt .
  have f2: "formatZone sample_library default_sorting (render [?s, ?t, ?a]) =
      Inr (render [?s, ?t, ?a])"
    using fi [THEN conjunct2, THEN conjunct1] unfolding srt .
  have f3: "format_lines sample_library default_sorting (?pre @ Scan (render [?s, ?t, ?a])) =
      Inr (render [?s, ?t, ?a])"
    using fi [THEN conjunct2, THEN conjunct2, THEN mp, OF q] unfolding srt .
  have "formatZone sample_library default_sorting ?zf = Inr (render [?s, ?t, ?a]) \<and>
     formatZone sample_library default_sorting (render [?s, ?t, ?a]) = Inr (render [?s, ?t, ?a]) \<and>
     format_lines sample_library default_sorting (?pre @ Scan (render [?s, ?t, ?a])) =
       Inr (render [?s, ?t, ?a])"
    using f1 f2 f3 by (intro conjI)
  then show ?thesis
    unfolding o using c l r p by (simp only: simp_thms)
qed

text \<open>
  Runs that show what the conditions on the records are for: a name that begins with
  \<open>$\<close> is printed as a line that the second run takes for a directive, an origin with
  a space in it gives a name that the second run splits, and data that ends in a
  carriage return loses it when the output is scanned.
\<close>

lemma format_twice_more:
  "formatZone sample_library default_sorting (''.$x IN A 10.0.0.1'' @ [CHR 0x0A]) =
     Inr (''$x.     0 IN A     10.0.0.1'' @ [CHR 0x0A]) \<and>
   formatZone sample_library default_sorting (''$x.     0 IN A     10.0.0.1'' @ [CHR 0x0A]) = Inr [] \<and>
   formatZone sample_library default_sorting
     (''$ORIGIN a. b.'' @ [CHR 0x0A] @ ''www IN A 10.0.0.1'' @ [CHR 0x0A]) =
     Inr (''www.a. b.     0 IN A     10.0.0.1'' @ [CHR 0x0A]) \<and>
   formatZone sample_library default_sorting (''www.a. b.     0 IN A     10.0.0.1'' @ [CHR 0x0A]) =
     Inr (''www.a.     0 b. 0     IN A     10.0.0.1'' @ [CHR 0x0A]) \<and>
   formatZone sample_library default_sorting (''a. IN A 10.0.0.1'' @ [CHR 0x0D, CHR 0x0D, CHR 0x0A]) =
     Inr (''a.     0 IN A     10.0.0.1'' @ [CHR 0x0D, CHR 0x0A]) \<and>
   formatZone sample_library default_sorting (''a.     0 IN A     10.0.0.1'' @ [CHR 0x0D, CHR 0x0A]) =
     Inr (''a.     0 IN A     10.0.0.1'' @ [CHR 0x0A])"
  by (simp add: format_eval parse_eval sort_eval render_eval)

end
